theory Spec2Isabelle
  imports Main
begin

section \<open>Python values\<close>

text \<open>
  A Python \<^verbatim>\<open>str\<close> is a sequence of Unicode code points; it is modelled as a list of
  natural numbers, one per code point.  \<open>py\<close> turns an ASCII literal into such a list.
\<close>

type_synonym pystr = "nat list"

definition py :: "string \<Rightarrow> pystr" where
  "py s = map of_char s"

text \<open>
  A Python \<^verbatim>\<open>float\<close> is kept as the exact decimal \<open>m * 10 ^ e\<close> of the literal it was read
  from (\<open>Dec m e\<close>), or as one of the three special values.  The only operation the
  program applies to a float is the truth test, which asks whether the literal rounds to
  zero as an IEEE double: that happens exactly when its magnitude is at most \<open>2 ^ -1075\<close>.
\<close>

datatype pyfloat = Dec int int | NaN | PosInf | NegInf

fun float_nonzero :: "pyfloat \<Rightarrow> bool" where
  "float_nonzero (Dec m e) =
     (if 0 \<le> e then m \<noteq> 0 else 10 ^ nat (- e) < \<bar>m\<bar> * 2 ^ 1075)"
| "float_nonzero NaN = True"
| "float_nonzero PosInf = True"
| "float_nonzero NegInf = True"

text \<open>
  The values that \<^verbatim>\<open>json.loads\<close> and \<^verbatim>\<open>Response.json()\<close> produce, and that the program
  passes around: \<^verbatim>\<open>None\<close>, \<^verbatim>\<open>bool\<close>, \<^verbatim>\<open>int\<close>, \<^verbatim>\<open>float\<close>, \<^verbatim>\<open>str\<close>, \<^verbatim>\<open>list\<close> and \<^verbatim>\<open>dict\<close> with
  string keys.  A dict is an association list in insertion order with distinct keys.
\<close>

datatype pyval =
    PyNone
  | PyBool bool
  | PyInt int
  | PyFloat pyfloat
  | PyStr pystr
  | PyList "pyval list"
  | PyDict "(pystr \<times> pyval) list"

text \<open>Python's truth test (\<^verbatim>\<open>not x\<close>, \<^verbatim>\<open>x or y\<close>).\<close>

fun truthy :: "pyval \<Rightarrow> bool" where
  "truthy PyNone = False"
| "truthy (PyBool b) = b"
| "truthy (PyInt i) = (i \<noteq> 0)"
| "truthy (PyFloat f) = float_nonzero f"
| "truthy (PyStr s) = (s \<noteq> [])"
| "truthy (PyList xs) = (xs \<noteq> [])"
| "truthy (PyDict d) = (d \<noteq> [])"

text \<open>\<^verbatim>\<open>d[k] = v\<close> on a dict: an existing key keeps its place and gets the new value.\<close>

fun dict_set :: "(pystr \<times> pyval) list \<Rightarrow> pystr \<Rightarrow> pyval \<Rightarrow> (pystr \<times> pyval) list" where
  "dict_set [] k v = [(k, v)]"
| "dict_set ((k', v') # d) k v =
     (if k' = k then (k, v) # d else (k', v') # dict_set d k v)"

text \<open>
  Exceptions.  \<open>LLMError\<close> is the one exception class the source declares
  (\<^verbatim>\<open>class LLMError(Exception)\<close>); its message is either a literal text or \<^verbatim>\<open>str(e)\<close> of the
  exception \<open>e\<close> it wraps (\<open>StrOf e\<close>).  The others are the library and interpreter
  exceptions that can arise inside the \<^verbatim>\<open>try\<close> blocks: a transport failure of
  \<^verbatim>\<open>requests.post\<close> (with its text), \<^verbatim>\<open>raise_for_status\<close> on a 4xx/5xx status, a body that
  is not JSON, and the interpreter's errors on values of the wrong shape.
\<close>

datatype py_exc =
    LLMError llm_msg
  | RequestException pystr
  | HTTPError nat
  | JSONDecodeError
  | AttributeError
  | TypeError
  | KeyError
  | IndexError
and llm_msg = Msg pystr | StrOf py_exc

text \<open>The name of the class of an exception value (\<^verbatim>\<open>type(e).__name__\<close>).\<close>

fun py_type :: "py_exc \<Rightarrow> string" where
  "py_type (LLMError _) = ''LLMError''"
| "py_type (RequestException _) = ''RequestException''"
| "py_type (HTTPError _) = ''HTTPError''"
| "py_type JSONDecodeError = ''JSONDecodeError''"
| "py_type AttributeError = ''AttributeError''"
| "py_type TypeError = ''TypeError''"
| "py_type KeyError = ''KeyError''"
| "py_type IndexError = ''IndexError''"

section \<open>String operations of the standard library\<close>

text \<open>
  \<^verbatim>\<open>str.isspace\<close> for one code point: the code points Python treats as whitespace
  (\<^verbatim>\<open>str.strip()\<close> without argument removes exactly these).
\<close>

definition isspace :: "nat \<Rightarrow> bool" where
  "isspace c \<longleftrightarrow>
     (0x09 \<le> c \<and> c \<le> 0x0D) \<or> (0x1C \<le> c \<and> c \<le> 0x20) \<or> c = 0x85 \<or> c = 0xA0 \<or>
     c = 0x1680 \<or> (0x2000 \<le> c \<and> c \<le> 0x200A) \<or> c = 0x2028 \<or> c = 0x2029 \<or>
     c = 0x202F \<or> c = 0x205F \<or> c = 0x3000"

definition py_strip :: "pystr \<Rightarrow> pystr" where
  "py_strip s = rev (dropWhile isspace (rev (dropWhile isspace s)))"

text \<open>\<^verbatim>\<open>s.find(c)\<close> and \<^verbatim>\<open>s.rfind(c)\<close> for a one-character \<open>c\<close>: the index, or -1.\<close>

fun find_from :: "nat \<Rightarrow> pystr \<Rightarrow> nat \<Rightarrow> int" where
  "find_from i [] c = - 1"
| "find_from i (x # xs) c = (if x = c then int i else find_from (Suc i) xs c)"

definition py_find :: "pystr \<Rightarrow> nat \<Rightarrow> int" where
  "py_find s c = find_from 0 s c"

definition py_rfind :: "pystr \<Rightarrow> nat \<Rightarrow> int" where
  "py_rfind s c =
     (let r = py_find (rev s) c in if r = - 1 then - 1 else int (length s) - 1 - r)"

text \<open>\<^verbatim>\<open>s[a:b]\<close> for indices that are not negative.\<close>

definition py_slice :: "pystr \<Rightarrow> int \<Rightarrow> int \<Rightarrow> pystr" where
  "py_slice s a b = take (nat (b - a)) (drop (nat a) s)"

section \<open>The two regular-expression substitutions\<close>

text \<open>
  \<^verbatim>\<open>re.sub(r"```(?:json)?\n", "", s, flags=re.IGNORECASE)\<close>.  The pattern matches three
  backticks, then optionally the four letters j, s, o, n in either case, then a newline.
  Under \<^verbatim>\<open>IGNORECASE\<close> on a \<^verbatim>\<open>str\<close> pattern the letter s also matches U+017F (long s).
  \<open>match_open_fence s\<close> is what follows a match at the start of \<open>s\<close>, if there is one;
  \<open>sub_open_fence\<close> deletes every match, scanning from the left, as \<^verbatim>\<open>re.sub\<close> does.
\<close>

definition json_tag :: "pystr \<Rightarrow> bool" where
  "json_tag t \<longleftrightarrow>
     (case t of
        [c1, c2, c3, c4] \<Rightarrow>
          (c1 = 0x6A \<or> c1 = 0x4A) \<and> (c2 = 0x73 \<or> c2 = 0x53 \<or> c2 = 0x17F) \<and>
          (c3 = 0x6F \<or> c3 = 0x4F) \<and> (c4 = 0x6E \<or> c4 = 0x4E)
      | _ \<Rightarrow> False)"

definition match_open_fence :: "pystr \<Rightarrow> pystr option" where
  "match_open_fence s =
     (if take 3 s = [0x60, 0x60, 0x60] then
        (if json_tag (take 4 (drop 3 s)) \<and> take 1 (drop 7 s) = [0x0A] then Some (drop 8 s)
         else if take 1 (drop 3 s) = [0x0A] then Some (drop 4 s)
         else None)
      else None)"

lemma match_open_fence_shorter:
  "match_open_fence s = Some r \<Longrightarrow> length r < length s"
  by (cases s) (auto simp: match_open_fence_def split: if_splits)

function sub_open_fence :: "pystr \<Rightarrow> pystr" where
  "sub_open_fence [] = []"
| "sub_open_fence (c # cs) =
     (case match_open_fence (c # cs) of
        Some rest \<Rightarrow> sub_open_fence rest
      | None \<Rightarrow> c # sub_open_fence cs)"
  by pat_completeness auto
termination
  by (relation "measure length") (auto dest: match_open_fence_shorter)

text \<open>
  \<^verbatim>\<open>re.sub(r"\n```$", "", s)\<close>.  Without \<^verbatim>\<open>MULTILINE\<close>, \<^verbatim>\<open>$\<close> matches at the end of the string
  and just before a newline that ends the string, so the pattern matches a final
  newline-and-three-backticks, or one followed by a single final newline (which stays).
\<close>

definition sub_close_fence :: "pystr \<Rightarrow> pystr" where
  "sub_close_fence s =
     (let n = length s; fence = [0x0A, 0x60, 0x60, 0x60] in
      if 4 \<le> n \<and> drop (n - 4) s = fence then take (n - 4) s
      else if 5 \<le> n \<and> drop (n - 5) s = fence @ [0x0A] then take (n - 5) s @ [0x0A]
      else s)"

section \<open>The JSON decoder of the standard library\<close>

text \<open>
  \<^verbatim>\<open>json.loads\<close> belongs to Python's standard library, not to the program.  It is
  modelled by the language \<^verbatim>\<open>json.decoder\<close> accepts, read in two passes: a tokenizer for
  the lexical rules (strings in strict mode, \<^verbatim>\<open>NUMBER_RE\<close>, the literals, the whitespace
  \<^verbatim>\<open>" \t\n\r"\<close>) and a stack automaton for objects and arrays.  \<open>None\<close> stands for any
  exception the decoder raises.  Limits of the interpreter (recursion depth, the digit
  limit of \<^verbatim>\<open>int\<close>) are not modelled.
\<close>

datatype token =
    TLBrace | TRBrace | TLBracket | TRBracket | TColon | TComma
  | TStr pystr
  | TAtom pyval

definition hexval :: "nat \<Rightarrow> nat option" where
  "hexval c =
     (if 0x30 \<le> c \<and> c \<le> 0x39 then Some (c - 0x30)
      else if 0x41 \<le> c \<and> c \<le> 0x46 then Some (c - 0x41 + 10)
      else if 0x61 \<le> c \<and> c \<le> 0x66 then Some (c - 0x61 + 10)
      else None)"

text \<open>The four hexadecimal digits of a \<^verbatim>\<open>\uXXXX\<close> escape.\<close>

definition decode_uXXXX :: "pystr \<Rightarrow> nat option" where
  "decode_uXXXX s =
     (case map hexval (take 4 s) of
        [Some a, Some b, Some c, Some d] \<Rightarrow> Some (((a * 16 + b) * 16 + c) * 16 + d)
      | _ \<Rightarrow> None)"

text \<open>The one-letter escapes: \<^verbatim>\<open>\" \\ \/ \b \f \n \r \t\<close>.\<close>

definition backslash :: "nat \<Rightarrow> nat option" where
  "backslash e =
     (if e = 0x22 then Some 0x22 else if e = 0x5C then Some 0x5C
      else if e = 0x2F then Some 0x2F else if e = 0x62 then Some 0x08
      else if e = 0x66 then Some 0x0C else if e = 0x6E then Some 0x0A
      else if e = 0x72 then Some 0x0D else if e = 0x74 then Some 0x09
      else None)"

definition cons_chr :: "nat \<Rightarrow> (pystr \<times> pystr) option \<Rightarrow> (pystr \<times> pystr) option" where
  "cons_chr c r = (case r of None \<Rightarrow> None | Some (str, rest) \<Rightarrow> Some (c # str, rest))"

text \<open>
  \<^verbatim>\<open>scanstring\<close>, called after the opening quote: the decoded string and what follows the
  closing quote.  A high surrogate escape followed by a low surrogate escape is one code
  point; a control character in the string is an error (strict mode).
\<close>

fun scanstring :: "pystr \<Rightarrow> (pystr \<times> pystr) option" where
  "scanstring [] = None"
| "scanstring (c # cs) =
     (if c = 0x22 then Some ([], cs)
      else if c = 0x5C then
        (case cs of
           [] \<Rightarrow> None
         | e # r \<Rightarrow>
             if e = 0x75 then
               (case decode_uXXXX r of
                  None \<Rightarrow> None
                | Some uni \<Rightarrow>
                    if 0xD800 \<le> uni \<and> uni \<le> 0xDBFF \<and> take 2 (drop 4 r) = [0x5C, 0x75] then
                      (case decode_uXXXX (drop 6 r) of
                         None \<Rightarrow> None
                       | Some uni2 \<Rightarrow>
                           if 0xDC00 \<le> uni2 \<and> uni2 \<le> 0xDFFF then
                             cons_chr (0x10000 + ((uni - 0xD800) * 1024 + (uni2 - 0xDC00)))
                               (scanstring (drop 10 r))
                           else cons_chr uni (scanstring (drop 4 r)))
                    else cons_chr uni (scanstring (drop 4 r)))
             else
               (case backslash e of
                  None \<Rightarrow> None
                | Some d \<Rightarrow> cons_chr d (scanstring r)))
      else if c < 0x20 then None
      else cons_chr c (scanstring cs))"

text \<open>
  \<^verbatim>\<open>NUMBER_RE = (-?(?:0|[1-9][0-9]*))(\.[0-9]+)?([eE][-+]?[0-9]+)?\<close> matched at the start of
  the text.  Without fraction and exponent the literal is an \<^verbatim>\<open>int\<close>, otherwise a
  \<^verbatim>\<open>float\<close>.
\<close>

definition isdigit :: "nat \<Rightarrow> bool" where
  "isdigit c \<longleftrightarrow> 0x30 \<le> c \<and> c \<le> 0x39"

definition digits_val :: "pystr \<Rightarrow> int" where
  "digits_val ds = foldl (\<lambda>a d. 10 * a + (int d - 0x30)) 0 ds"

text \<open>The group \<^verbatim>\<open>(-?(?:0|[1-9][0-9]*))\<close>: sign, digits, rest.\<close>

definition match_integer :: "pystr \<Rightarrow> (bool \<times> pystr \<times> pystr) option" where
  "match_integer s =
     (let neg = (take 1 s = [0x2D]); s1 = (if neg then drop 1 s else s) in
      case s1 of
        [] \<Rightarrow> None
      | d # r \<Rightarrow>
          if d = 0x30 then Some (neg, [d], r)
          else if isdigit d then Some (neg, takeWhile isdigit s1, dropWhile isdigit s1)
          else None)"

text \<open>The group \<^verbatim>\<open>(\.[0-9]+)?\<close>: the digits of the fraction (empty when absent), rest.\<close>

definition match_frac :: "pystr \<Rightarrow> pystr \<times> pystr" where
  "match_frac s =
     (case s of
        p # d # r \<Rightarrow>
          if p = 0x2E \<and> isdigit d then (takeWhile isdigit (d # r), dropWhile isdigit (d # r))
          else ([], s)
      | _ \<Rightarrow> ([], s))"

text \<open>The group \<^verbatim>\<open>([eE][-+]?[0-9]+)?\<close>: the exponent when present, rest.\<close>

definition match_exp :: "pystr \<Rightarrow> int option \<times> pystr" where
  "match_exp s =
     (case s of
        [] \<Rightarrow> (None, s)
      | e # r \<Rightarrow>
          if e = 0x65 \<or> e = 0x45 then
            (let neg = (take 1 r = [0x2D]);
                 r1 = (if take 1 r = [0x2D] \<or> take 1 r = [0x2B] then drop 1 r else r);
                 ds = takeWhile isdigit r1
             in if ds = [] then (None, s)
                else (Some (if neg then - digits_val ds else digits_val ds), dropWhile isdigit r1))
          else (None, s))"

definition match_number :: "pystr \<Rightarrow> (pyval \<times> pystr) option" where
  "match_number s =
     (case match_integer s of
        None \<Rightarrow> None
      | Some (neg, ds, r) \<Rightarrow>
          (let (fs, r1) = match_frac r; (ex, r2) = match_exp r1 in
           if fs = [] \<and> ex = None then
             Some (PyInt (if neg then - digits_val ds else digits_val ds), r2)
           else
             (let m = digits_val (ds @ fs);
                  e = (case ex of None \<Rightarrow> 0 | Some x \<Rightarrow> x) - int (length fs)
              in Some (PyFloat (Dec (if neg then - m else m) e), r2))))"

definition cons_tok :: "token \<Rightarrow> token list option \<Rightarrow> token list option" where
  "cons_tok t r = map_option ((#) t) r"

lemma cons_chr_shorter:
  "cons_chr c r = Some (str, rest) \<Longrightarrow> \<exists>str'. r = Some (str', rest)"
  by (cases r) (auto simp: cons_chr_def)

lemma scanstring_shorter:
  "scanstring s = Some (str, rest) \<Longrightarrow> length rest < length s"
proof (induction s arbitrary: str rest rule: scanstring.induct)
  case 1
  then show ?case by simp
next
  case (2 c cs)
  show ?case
  proof (cases "c = 0x22")
    case True
    with "2.prems" show ?thesis by simp
  next
    case False
    note notq = this
    show ?thesis
    proof (cases "c = 0x5C")
      case False
      with notq "2.prems" have "c \<ge> 0x20" and "cons_chr c (scanstring cs) = Some (str, rest)"
        by (auto split: if_splits)
      then obtain str' where "scanstring cs = Some (str', rest)"
        using cons_chr_shorter by blast
      with "2.IH"(5) [OF notq False] \<open>c \<ge> 0x20\<close> show ?thesis by fastforce
    next
      case True
      then obtain e r where cs: "cs = e # r"
        using "2.prems" notq by (cases cs) auto
      show ?thesis
      proof (cases "e = 0x75")
        case False
        with True notq cs "2.prems" obtain d where d: "backslash e = Some d"
          "cons_chr d (scanstring r) = Some (str, rest)"
          by (auto split: option.splits)
        then obtain str' where "scanstring r = Some (str', rest)"
          using cons_chr_shorter by blast
        with "2.IH"(4) [OF notq True cs False d(1)] cs show ?thesis by fastforce
      next
        case eu: True
        with True notq cs "2.prems" obtain uni where uni: "decode_uXXXX r = Some uni"
          by (auto split: option.splits)
        show ?thesis
        proof (cases "0xD800 \<le> uni \<and> uni \<le> 0xDBFF \<and> take 2 (drop 4 r) = [0x5C, 0x75]")
          case False
          with True notq cs eu uni "2.prems"
          have "cons_chr uni (scanstring (drop 4 r)) = Some (str, rest)"
            by (auto split: if_splits)
          then obtain str' where "scanstring (drop 4 r) = Some (str', rest)"
            using cons_chr_shorter by blast
          with "2.IH"(3) [OF notq True cs eu uni False] cs show ?thesis by fastforce
        next
          case pair: True
          with True notq cs eu uni "2.prems" obtain uni2 where
            uni2: "decode_uXXXX (drop 6 r) = Some uni2"
            by (auto split: option.splits)
          show ?thesis
          proof (cases "0xDC00 \<le> uni2 \<and> uni2 \<le> 0xDFFF")
            case low: True
            with True notq cs eu uni pair uni2 "2.prems"
            have "cons_chr (0x10000 + ((uni - 0xD800) * 1024 + (uni2 - 0xDC00)))
                    (scanstring (drop 10 r)) = Some (str, rest)"
              by (auto split: if_splits)
            then obtain str' where "scanstring (drop 10 r) = Some (str', rest)"
              using cons_chr_shorter by blast
            with "2.IH"(1) [OF notq True cs eu uni pair uni2 low] cs show ?thesis
              by fastforce
          next
            case nolow: False
            with True notq cs eu uni pair uni2 "2.prems"
            have "cons_chr uni (scanstring (drop 4 r)) = Some (str, rest)"
              by (auto split: if_splits)
            then obtain str' where "scanstring (drop 4 r) = Some (str', rest)"
              using cons_chr_shorter by blast
            with "2.IH"(2) [OF notq True cs eu uni pair uni2 nolow] cs show ?thesis
              by fastforce
          qed
        qed
      qed
    qed
  qed
qed

lemma match_integer_shorter:
  assumes "match_integer s = Some (neg, ds, r)"
  shows "length r < length s"
proof (cases s)
  case Nil
  with assms show ?thesis by (simp add: match_integer_def)
next
  case (Cons c cs)
  have dw: "length (dropWhile isdigit x) \<le> length x" for x :: pystr
    by (rule length_dropWhile_le)
  show ?thesis
  proof (cases "c = 0x2D")
    case False
    with assms Cons dw [of cs] show ?thesis
      by (auto simp: match_integer_def Let_def split: if_splits)
  next
    case True
    show ?thesis
    proof (cases cs)
      case Nil
      with assms Cons True show ?thesis by (simp add: match_integer_def)
    next
      case (Cons d cs')
      with assms \<open>s = c # cs\<close> True dw [of cs'] show ?thesis
        by (auto simp: match_integer_def Let_def split: if_splits)
    qed
  qed
qed

lemma match_frac_shorter: "length (snd (match_frac s)) \<le> length s"
proof -
  have dw: "length (dropWhile isdigit x) \<le> length x" for x :: pystr
    by (rule length_dropWhile_le)
  show ?thesis
  proof (cases s)
    case Nil
    then show ?thesis by (simp add: match_frac_def)
  next
    case (Cons p s')
    show ?thesis
    proof (cases s')
      case Nil
      with Cons show ?thesis by (simp add: match_frac_def)
    next
      case (Cons d r)
      with \<open>s = p # s'\<close> dw [of r] show ?thesis
        by (auto simp: match_frac_def)
    qed
  qed
qed

lemma match_exp_shorter: "length (snd (match_exp s)) \<le> length s"
proof (cases s)
  case Nil
  then show ?thesis by (simp add: match_exp_def)
next
  case (Cons e r)
  have dw: "length (dropWhile isdigit x) \<le> length x" for x :: pystr
    by (rule length_dropWhile_le)
  from dw [of r] dw [of "drop 1 r"] have
    "length (dropWhile isdigit r) \<le> Suc (length r)"
    "length (dropWhile isdigit (drop 1 r)) \<le> Suc (length r)"
    by simp_all
  with Cons show ?thesis
    by (simp add: match_exp_def Let_def)
qed

lemma match_number_shorter:
  assumes "match_number s = Some (v, rest)"
  shows "length rest < length s"
proof -
  from assms obtain neg ds r where mi: "match_integer s = Some (neg, ds, r)"
    by (auto simp: match_number_def split: option.splits)
  from assms mi have "rest = snd (match_exp (snd (match_frac r)))"
    by (auto simp: match_number_def Let_def split: prod.splits if_splits)
  with match_frac_shorter [of r] match_exp_shorter [of "snd (match_frac r)"]
    match_integer_shorter [OF mi]
  show ?thesis by simp
qed

text \<open>
  The tokenizer.  At a character that starts a value the cases are tried in the order
  of the scanner of \<^verbatim>\<open>json.scanner\<close>: string, the literals \<^verbatim>\<open>null\<close>, \<^verbatim>\<open>true\<close>, \<^verbatim>\<open>false\<close>, a
  number, then \<^verbatim>\<open>NaN\<close>, \<^verbatim>\<open>Infinity\<close> and \<^verbatim>\<open>-Infinity\<close>.
\<close>

function tokenize :: "pystr \<Rightarrow> token list option" where
  "tokenize [] = Some []"
| "tokenize (c # cs) =
     (if c = 0x20 \<or> c = 0x09 \<or> c = 0x0A \<or> c = 0x0D then tokenize cs
      else if c = 0x7B then cons_tok TLBrace (tokenize cs)
      else if c = 0x7D then cons_tok TRBrace (tokenize cs)
      else if c = 0x5B then cons_tok TLBracket (tokenize cs)
      else if c = 0x5D then cons_tok TRBracket (tokenize cs)
      else if c = 0x3A then cons_tok TColon (tokenize cs)
      else if c = 0x2C then cons_tok TComma (tokenize cs)
      else if c = 0x22 then
        (case scanstring cs of
           None \<Rightarrow> None
         | Some (str, rest) \<Rightarrow> cons_tok (TStr str) (tokenize rest))
      else if take 4 (c # cs) = py ''null'' then
        cons_tok (TAtom PyNone) (tokenize (drop 3 cs))
      else if take 4 (c # cs) = py ''true'' then
        cons_tok (TAtom (PyBool True)) (tokenize (drop 3 cs))
      else if take 5 (c # cs) = py ''false'' then
        cons_tok (TAtom (PyBool False)) (tokenize (drop 4 cs))
      else
        (case match_number (c # cs) of
           Some (v, rest) \<Rightarrow> cons_tok (TAtom v) (tokenize rest)
         | None \<Rightarrow>
             if take 3 (c # cs) = py ''NaN'' then
               cons_tok (TAtom (PyFloat NaN)) (tokenize (drop 2 cs))
             else if take 8 (c # cs) = py ''Infinity'' then
               cons_tok (TAtom (PyFloat PosInf)) (tokenize (drop 7 cs))
             else if take 9 (c # cs) = py ''-Infinity'' then
               cons_tok (TAtom (PyFloat NegInf)) (tokenize (drop 8 cs))
             else None))"
  by pat_completeness auto
termination
  by (relation "measure length")
    (auto dest!: scanstring_shorter match_number_shorter)

text \<open>
  The stack automaton.  A context is a container under construction: an array with the
  elements read so far, or an object with the entries read so far and the key whose
  value is being read.  The states say what may come next.
\<close>

datatype ctx = CArr "pyval list" | CObj "(pystr \<times> pyval) list" pystr

datatype pstate =
    SValue "ctx list"
  | SArrFirst "ctx list"
  | SArrNext "pyval list" "ctx list"
  | SObjFirst "ctx list"
  | SObjKey "(pystr \<times> pyval) list" "ctx list"
  | SColon "(pystr \<times> pyval) list" pystr "ctx list"
  | SObjNext "(pystr \<times> pyval) list" "ctx list"
  | SDone pyval

text \<open>A finished value goes into the innermost open container, or is the result.\<close>

fun put :: "pyval \<Rightarrow> ctx list \<Rightarrow> pstate" where
  "put v [] = SDone v"
| "put v (CArr acc # cs) = SArrNext (acc @ [v]) cs"
| "put v (CObj d k # cs) = SObjNext (dict_set d k v) cs"

fun start_value :: "ctx list \<Rightarrow> token \<Rightarrow> pstate option" where
  "start_value cs (TAtom v) = Some (put v cs)"
| "start_value cs (TStr s) = Some (put (PyStr s) cs)"
| "start_value cs TLBracket = Some (SArrFirst cs)"
| "start_value cs TLBrace = Some (SObjFirst cs)"
| "start_value cs _ = None"

fun step :: "pstate \<Rightarrow> token \<Rightarrow> pstate option" where
  "step (SValue cs) t = start_value cs t"
| "step (SArrFirst cs) t =
     (if t = TRBracket then Some (put (PyList []) cs) else start_value (CArr [] # cs) t)"
| "step (SArrNext acc cs) t =
     (if t = TComma then Some (SValue (CArr acc # cs))
      else if t = TRBracket then Some (put (PyList acc) cs)
      else None)"
| "step (SObjFirst cs) t =
     (case t of
        TRBrace \<Rightarrow> Some (put (PyDict []) cs)
      | TStr k \<Rightarrow> Some (SColon [] k cs)
      | _ \<Rightarrow> None)"
| "step (SObjKey d cs) t = (case t of TStr k \<Rightarrow> Some (SColon d k cs) | _ \<Rightarrow> None)"
| "step (SColon d k cs) t = (if t = TColon then Some (SValue (CObj d k # cs)) else None)"
| "step (SObjNext d cs) t =
     (if t = TComma then Some (SObjKey d cs)
      else if t = TRBrace then Some (put (PyDict d) cs)
      else None)"
| "step (SDone v) t = None"

fun run :: "pstate \<Rightarrow> token list \<Rightarrow> pstate option" where
  "run st [] = Some st"
| "run st (t # ts) = (case step st t of None \<Rightarrow> None | Some st' \<Rightarrow> run st' ts)"

text \<open>\<^verbatim>\<open>json.loads(s)\<close>: the decoded value, or \<open>None\<close> when the decoder raises.\<close>

definition json_loads :: "pystr \<Rightarrow> pyval option" where
  "json_loads s =
     (case tokenize s of
        None \<Rightarrow> None
      | Some ts \<Rightarrow> (case run (SValue []) ts of Some (SDone v) \<Rightarrow> Some v | _ \<Rightarrow> None))"

section \<open>The response normalizer\<close>

text \<open>
  \<^verbatim>\<open>LLMClient._try_parse_json\<close>.  The argument is whatever the caller extracted from the
  provider's body, so it need not be a \<^verbatim>\<open>str\<close>: a value that is not falsy and has no
  \<^verbatim>\<open>strip\<close> method raises \<^verbatim>\<open>AttributeError\<close>.  Both \<^verbatim>\<open>json.loads\<close> calls sit in
  \<^verbatim>\<open>try/except Exception\<close>.  Python's \<^verbatim>\<open>None\<close> is both the result for unparseable text and
  the value of the JSON text \<^verbatim>\<open>null\<close>.
\<close>

definition try_parse_json :: "pyval \<Rightarrow> py_exc + pyval" where
  "try_parse_json text =
     (if \<not> truthy text then Inr PyNone
      else case text of
        PyStr t \<Rightarrow>
          (let s = py_strip t;
               s = sub_open_fence s;
               s = sub_close_fence s;
               first = py_find s 0x7B;
               last = py_rfind s 0x7D
           in case (if first \<noteq> - 1 \<and> last \<noteq> - 1 \<and> last > first
                    then json_loads (py_slice s first (last + 1)) else None) of
                Some v \<Rightarrow> Inr v
              | None \<Rightarrow> (case json_loads s of Some v \<Rightarrow> Inr v | None \<Rightarrow> Inr PyNone))
      | _ \<Rightarrow> Inl AttributeError)"

section \<open>Operations on Python values\<close>

text \<open>
  The three operations the program applies to decoded bodies, with the exception each
  raises on a value of the wrong type: \<^verbatim>\<open>x.get(k, default)\<close> exists on a dict only;
  \<^verbatim>\<open>x[k]\<close> for a string \<open>k\<close> needs a dict that has the key; \<^verbatim>\<open>x[0]\<close> needs a list or a string
  that is not empty (a dict decoded from JSON has no key \<open>0\<close>).
\<close>

definition py_get :: "pyval \<Rightarrow> pystr \<Rightarrow> pyval \<Rightarrow> py_exc + pyval" where
  "py_get x k dflt =
     (case x of
        PyDict d \<Rightarrow> (case map_of d k of Some v \<Rightarrow> Inr v | None \<Rightarrow> Inr dflt)
      | _ \<Rightarrow> Inl AttributeError)"

definition py_getitem :: "pyval \<Rightarrow> pystr \<Rightarrow> py_exc + pyval" where
  "py_getitem x k =
     (case x of
        PyDict d \<Rightarrow> (case map_of d k of Some v \<Rightarrow> Inr v | None \<Rightarrow> Inl KeyError)
      | _ \<Rightarrow> Inl TypeError)"

definition py_getitem0 :: "pyval \<Rightarrow> py_exc + pyval" where
  "py_getitem0 x =
     (case x of
        PyList xs \<Rightarrow> (case xs of [] \<Rightarrow> Inl IndexError | v # _ \<Rightarrow> Inr v)
      | PyStr s \<Rightarrow> (case s of [] \<Rightarrow> Inl IndexError | c # _ \<Rightarrow> Inr (PyStr [c]))
      | PyDict d \<Rightarrow> Inl KeyError
      | _ \<Rightarrow> Inl TypeError)"

text \<open>Sequencing of statements that may raise: the first exception ends the block.\<close>

definition bind_exc :: "py_exc + 'a \<Rightarrow> ('a \<Rightarrow> py_exc + 'b) \<Rightarrow> py_exc + 'b" where
  "bind_exc m f = (case m of Inl e \<Rightarrow> Inl e | Inr x \<Rightarrow> f x)"

section \<open>The HTTP layer and the environment\<close>

text \<open>
  The three calls of \<^verbatim>\<open>requests.post\<close> the program makes, with the arguments it passes:
  the token exchange (URL, client id and secret as basic auth, timeout 15), the inference
  call (URL, the bearer token of the \<^verbatim>\<open>Authorization\<close> header, model, user prompt,
  \<^verbatim>\<open>max_tokens\<close>, \<^verbatim>\<open>temperature\<close>, timeout 60) and the local call (URL, prompt, timeout 60).
  Configuration values are \<^verbatim>\<open>os.environ.get\<close> results: a string or \<^verbatim>\<open>None\<close>.
\<close>

datatype request =
    TokenPost "pystr option" "pystr option" "pystr option" nat
  | InferencePost "pystr option" pyval "pystr option" pystr int pyfloat nat
  | LocalPost "pystr option" pystr nat

text \<open>
  What a call gives back: \<^verbatim>\<open>requests.post\<close> raised (connection error, timeout, bad URL)
  with the text of the exception, or a response with its status code and its body
  decoded as JSON (\<open>None\<close> when the body is not JSON, so that \<^verbatim>\<open>Response.json()\<close> raises).
\<close>

datatype outcome = Raised pystr | Response nat "pyval option"

text \<open>
  The environment of a run: the remote side, which answers a request given the requests
  made before it, and \<^verbatim>\<open>json.dumps\<close> (its output for floats is \<^verbatim>\<open>float.__repr__\<close>, which is
  not modelled, so it is a parameter).  The state threaded through the program is the
  list of the requests made so far.
\<close>

record env =
  post :: "request list \<Rightarrow> request \<Rightarrow> outcome"
  dumps :: "pyval \<Rightarrow> pystr"

definition http_post :: "env \<Rightarrow> request \<Rightarrow> request list \<Rightarrow> outcome \<times> request list" where
  "http_post ev rq log = (post ev log rq, log @ [rq])"

text \<open>
  \<^verbatim>\<open>r.raise_for_status()\<close> followed by \<^verbatim>\<open>r.json()\<close>, on the outcome of the call:
  \<^verbatim>\<open>raise_for_status\<close> raises for the status codes 400 to 599.
\<close>

definition response_json :: "outcome \<Rightarrow> py_exc + pyval" where
  "response_json out =
     (case out of
        Raised msg \<Rightarrow> Inl (RequestException msg)
      | Response status body \<Rightarrow>
          if 400 \<le> status \<and> status < 600 then Inl (HTTPError status)
          else (case body of None \<Rightarrow> Inl JSONDecodeError | Some j \<Rightarrow> Inr j))"

section \<open>The client\<close>

text \<open>The fields \<^verbatim>\<open>LLMClient.__init__\<close> reads from the process environment.\<close>

record client =
  provider :: pystr
  token_url :: "pystr option"
  client_id :: "pystr option"
  client_secret :: "pystr option"
  inference_url :: "pystr option"
  model_name :: "pystr option"
  local_url :: "pystr option"
  max_tokens :: int
  temperature :: pyfloat

text \<open>The truth test on a configuration value: \<^verbatim>\<open>None\<close> and the empty string are falsy.\<close>

definition present :: "pystr option \<Rightarrow> bool" where
  "present x = (case x of None \<Rightarrow> False | Some s \<Rightarrow> s \<noteq> [])"

text \<open>
  \<^verbatim>\<open>_get_access_token\<close>: every exception of the block becomes
  \<^verbatim>\<open>LLMError("SAP AI Core authentication failed")\<close>.
\<close>

definition get_access_token ::
  "env \<Rightarrow> client \<Rightarrow> request list \<Rightarrow> (py_exc + pyval) \<times> request list" where
  "get_access_token ev c log =
     (let (out, log1) =
            http_post ev (TokenPost (token_url c) (client_id c) (client_secret c) 15) log
      in case bind_exc (response_json out) (\<lambda>j. py_getitem j (py ''access_token'')) of
           Inl e \<Rightarrow> (Inl (LLMError (Msg (py ''SAP AI Core authentication failed''))), log1)
         | Inr token \<Rightarrow> (Inr token, log1))"

text \<open>
  The \<^verbatim>\<open>try\<close> block of \<^verbatim>\<open>_call_sap_aicore\<close> after the call returned: status check, body,
  the chain \<^verbatim>\<open>raw.get("choices", [{}])[0].get("message", {}).get("content", "")\<close>, the
  normalizer, the result dict.
\<close>

definition sap_result :: "outcome \<Rightarrow> py_exc + pyval" where
  "sap_result out =
     bind_exc (response_json out) (\<lambda>raw.
     bind_exc (py_get raw (py ''choices'') (PyList [PyDict []])) (\<lambda>choices.
     bind_exc (py_getitem0 choices) (\<lambda>choice.
     bind_exc (py_get choice (py ''message'') (PyDict [])) (\<lambda>message.
     bind_exc (py_get message (py ''content'') (PyStr [])) (\<lambda>text.
     bind_exc (try_parse_json text) (\<lambda>parsed.
     Inr (PyDict [(py ''text'', text), (py ''json'', parsed), (py ''raw'', raw)])))))))"

text \<open>
  \<^verbatim>\<open>_call_sap_aicore\<close>: the configuration check, the token exchange (whose \<^verbatim>\<open>LLMError\<close>
  propagates), the inference call; every exception of the \<^verbatim>\<open>try\<close> block becomes
  \<^verbatim>\<open>LLMError(str(e))\<close>.
\<close>

definition call_sap_aicore ::
  "env \<Rightarrow> client \<Rightarrow> pystr \<Rightarrow> request list \<Rightarrow> (py_exc + pyval) \<times> request list" where
  "call_sap_aicore ev c prompt log =
     (if \<not> (present (token_url c) \<and> present (client_id c) \<and> present (client_secret c) \<and>
             present (inference_url c))
      then (Inl (LLMError (Msg (py ''SAP AI Core configuration missing''))), log)
      else
        (case get_access_token ev c log of
           (Inl e, log1) \<Rightarrow> (Inl e, log1)
         | (Inr token, log1) \<Rightarrow>
             (let (out, log2) =
                    http_post ev
                      (InferencePost (inference_url c) token (model_name c) prompt
                         (max_tokens c) (temperature c) 60) log1
              in case sap_result out of
                   Inl e \<Rightarrow> (Inl (LLMError (StrOf e)), log2)
                 | Inr res \<Rightarrow> (Inr res, log2))))"

text \<open>
  The \<^verbatim>\<open>try\<close> block of \<^verbatim>\<open>_call_local\<close> after the call returned.  The text is
  \<^verbatim>\<open>j.get("result") or j.get("text") or j.get("output") or json.dumps(j)\<close>: each operand is
  evaluated only when those before it are falsy, and the last is taken as it is.
\<close>

definition local_result :: "env \<Rightarrow> outcome \<Rightarrow> py_exc + pyval" where
  "local_result ev out =
     bind_exc (response_json out) (\<lambda>j.
     bind_exc
       (bind_exc (py_get j (py ''result'') PyNone) (\<lambda>a.
          if truthy a then Inr a
          else bind_exc (py_get j (py ''text'') PyNone) (\<lambda>b.
            if truthy b then Inr b
            else bind_exc (py_get j (py ''output'') PyNone) (\<lambda>c.
              if truthy c then Inr c else Inr (PyStr (dumps ev j)))))) (\<lambda>text.
     bind_exc (try_parse_json text) (\<lambda>parsed.
     Inr (PyDict [(py ''text'', text), (py ''json'', parsed), (py ''raw'', j)]))))"

definition call_local ::
  "env \<Rightarrow> client \<Rightarrow> pystr \<Rightarrow> request list \<Rightarrow> (py_exc + pyval) \<times> request list" where
  "call_local ev c prompt log =
     (if \<not> present (local_url c)
      then (Inl (LLMError (Msg (py ''LOCAL_LLM_URL not set''))), log)
      else
        (let (out, log1) = http_post ev (LocalPost (local_url c) prompt 60) log
         in case local_result ev out of
              Inl e \<Rightarrow> (Inl (LLMError (StrOf e)), log1)
            | Inr res \<Rightarrow> (Inr res, log1)))"

text \<open>\<^verbatim>\<open>LLMClient.analyze\<close>: dispatch on the provider name.\<close>

definition analyze ::
  "env \<Rightarrow> client \<Rightarrow> pystr \<Rightarrow> request list \<Rightarrow> (py_exc + pyval) \<times> request list" where
  "analyze ev c prompt log =
     (if provider c = py ''sap_aicore'' then call_sap_aicore ev c prompt log
      else if provider c = py ''local'' \<or> provider c = py ''ollama'' \<or> provider c = py ''vllm''
      then call_local ev c prompt log
      else (Inl (LLMError (Msg (py ''Unknown LLM_PROVIDER: '' @ provider c))), log))"

section \<open>The analysis store\<close>

text \<open>
  Modelled from the spec: the persisted record of the analysis store (\<^verbatim>\<open>app/storage.py\<close> is
  not among the sources; \<^verbatim>\<open>main.py\<close> only calls it).  The specification gives the record
  as \<^verbatim>\<open>{record_id, input_payload, analysis_result, created_at}\<close>.
\<close>

record analysis_record =
  record_id :: pystr
  input_payload :: pyval
  analysis_result :: pyval
  created_at :: nat

text \<open>
  Modelled from the spec: the store holds the live records; \<^verbatim>\<open>save\<close> "writes or replaces the
  record for \<^verbatim>\<open>record_id\<close>" and "sets \<^verbatim>\<open>created_at\<close> to the write time", which is an argument
  here.  It returns the record it wrote.
\<close>

definition save_analysis ::
  "analysis_record list \<Rightarrow> pystr \<Rightarrow> pyval \<Rightarrow> pyval \<Rightarrow> nat \<Rightarrow> analysis_record \<times> analysis_record list" where
  "save_analysis st rid payload result now =
     (let rec = \<lparr>record_id = rid, input_payload = payload, analysis_result = result,
                 created_at = now\<rparr>
      in (rec, rec # filter (\<lambda>r. record_id r \<noteq> rid) st))"

text \<open>Modelled from the spec: \<^verbatim>\<open>get\<close> "returns null if absent; never raises for a missing key".\<close>

definition get_analysis :: "analysis_record list \<Rightarrow> pystr \<Rightarrow> analysis_record option" where
  "get_analysis st rid = find (\<lambda>r. record_id r = rid) st"

text \<open>
  Modelled from the spec: \<^verbatim>\<open>list_recent(limit)\<close> gives the records "descending by
  \<^verbatim>\<open>created_at\<close>, truncated to \<^verbatim>\<open>limit\<close>".
\<close>

definition list_recent :: "analysis_record list \<Rightarrow> nat \<Rightarrow> analysis_record list" where
  "list_recent st limit = take limit (rev (sort_key created_at st))"

text \<open>
  Modelled from the spec: a sequence of \<^verbatim>\<open>save\<close> calls, each with its record id, payload,
  result and write time, applied in order to a store.
\<close>

fun save_all ::
  "analysis_record list \<Rightarrow> (pystr \<times> pyval \<times> pyval \<times> nat) list \<Rightarrow> analysis_record list" where
  "save_all st [] = st"
| "save_all st ((rid, payload, result, now) # ops) =
     save_all (snd (save_analysis st rid payload result now)) ops"

section \<open>Vocabulary of the claims\<close>

text \<open>
  Position \<open>i\<close> holds the first occurrence of the character \<open>c\<close> in \<open>s\<close>; position \<open>j\<close>
  holds the last one.
\<close>

definition first_index :: "pystr \<Rightarrow> nat \<Rightarrow> nat \<Rightarrow> bool" where
  "first_index s c i \<longleftrightarrow> i < length s \<and> s ! i = c \<and> (\<forall>k<i. s ! k \<noteq> c)"

definition last_index :: "pystr \<Rightarrow> nat \<Rightarrow> nat \<Rightarrow> bool" where
  "last_index s c j \<longleftrightarrow> j < length s \<and> s ! j = c \<and> (\<forall>k. j < k \<and> k < length s \<longrightarrow> s ! k \<noteq> c)"

text \<open>A value is a mapping when it is a dict.\<close>

definition is_mapping :: "pyval \<Rightarrow> bool" where
  "is_mapping v = (case v of PyDict d \<Rightarrow> True | _ \<Rightarrow> False)"

text \<open>
  An invariant of the stack automaton: the outermost container under construction is an
  object (or the finished value is one).
\<close>

definition obj_ctx :: "ctx list \<Rightarrow> bool" where
  "obj_ctx cs = (case rev cs of CObj d k # _ \<Rightarrow> True | _ \<Rightarrow> False)"

fun obj_root :: "pstate \<Rightarrow> bool" where
  "obj_root (SValue cs) = obj_ctx cs"
| "obj_root (SArrFirst cs) = obj_ctx cs"
| "obj_root (SArrNext acc cs) = obj_ctx cs"
| "obj_root (SObjFirst cs) = (cs = [] \<or> obj_ctx cs)"
| "obj_root (SObjKey d cs) = (cs = [] \<or> obj_ctx cs)"
| "obj_root (SColon d k cs) = (cs = [] \<or> obj_ctx cs)"
| "obj_root (SObjNext d cs) = (cs = [] \<or> obj_ctx cs)"
| "obj_root (SDone v) = is_mapping v"

text \<open>The four parameters \<^verbatim>\<open>_call_sap_aicore\<close> checks are present.\<close>

definition configured :: "client \<Rightarrow> bool" where
  "configured c \<longleftrightarrow>
     present (token_url c) \<and> present (client_id c) \<and> present (client_secret c) \<and>
     present (inference_url c)"

text \<open>The provider name selects the local variant.\<close>

definition is_local :: "client \<Rightarrow> bool" where
  "is_local c \<longleftrightarrow> provider c = py ''local'' \<or> provider c = py ''ollama'' \<or> provider c = py ''vllm''"

text \<open>
  The text a local response yields, in the words of the specification: the first
  populated field among \<^verbatim>\<open>result\<close>, \<^verbatim>\<open>text\<close>, \<^verbatim>\<open>output\<close>, if there is one.
\<close>

definition first_populated :: "(pystr \<times> pyval) list \<Rightarrow> pyval option" where
  "first_populated d =
     (case filter truthy (List.map_filter (map_of d) [py ''result'', py ''text'', py ''output'']) of
        [] \<Rightarrow> None
      | x # _ \<Rightarrow> Some x)"

section \<open>Clients and environments of the examples\<close>

text \<open>A client with every parameter of the remote-managed provider set.\<close>

definition demo_client :: client where
  "demo_client =
     \<lparr>provider = py ''sap_aicore'',
      token_url = Some (py ''https://auth.example/oauth/token''),
      client_id = Some (py ''id''),
      client_secret = Some (py ''secret''),
      inference_url = Some (py ''https://api.example/chat/completions''),
      model_name = Some (py ''gpt-4o''),
      local_url = None,
      max_tokens = 800,
      temperature = Dec 0 (- 1)\<rparr>"

text \<open>The same client switched to the local provider.\<close>

definition local_client :: client where
  "local_client = demo_client\<lparr>provider := py ''local'', local_url := Some (py ''http://localhost:8000'')\<rparr>"

text \<open>
  An environment whose remote side answers each kind of request with a fixed outcome,
  and whose serializer knows the one body the examples need.
\<close>

definition fixed_env :: "outcome \<Rightarrow> outcome \<Rightarrow> outcome \<Rightarrow> env" where
  \<open>fixed_env tok_out inf_out loc_out =
     \<lparr>post = (\<lambda>log rq. case rq of
                TokenPost _ _ _ _ \<Rightarrow> tok_out
              | InferencePost _ _ _ _ _ _ _ \<Rightarrow> inf_out
              | LocalPost _ _ _ \<Rightarrow> loc_out),
      dumps = (\<lambda>v. if v = PyDict [(py ''status'', PyStr (py ''ok''))]
                    then py ''{"status": "ok"}'' else [])\<rparr>\<close>

text \<open>A token response and a completion response of the expected shape.\<close>

definition token_ok :: outcome where
  "token_ok = Response 200 (Some (PyDict [(py ''access_token'', PyStr (py ''tok123''))]))"

definition completion_ok :: outcome where
  "completion_ok =
     Response 200 (Some (PyDict [(py ''choices'',
       PyList [PyDict [(py ''message'', PyDict [(py ''content'', PyStr (py ''hello''))])]])]))"

section \<open>Facts about find, rfind and slices\<close>

lemma find_from_absent: "find_from i s c = - 1 \<longleftrightarrow> c \<notin> set s"
  by (induction s arbitrary: i) auto

lemma first_index_Cons:
  "first_index (x # xs) c k \<longleftrightarrow> (if x = c then k = 0 else \<exists>k'. k = Suc k' \<and> first_index xs c k')"
proof (cases k)
  case 0
  then show ?thesis by (auto simp: first_index_def)
next
  case (Suc k')
  have "(\<forall>m<Suc k'. (x # xs) ! m \<noteq> c) \<longleftrightarrow> x \<noteq> c \<and> (\<forall>m<k'. xs ! m \<noteq> c)"
    by (auto simp: less_Suc_eq_0_disj)
  with Suc show ?thesis by (auto simp: first_index_def)
qed

lemma find_from_first: "first_index s c k \<Longrightarrow> find_from i s c = int (i + k)"
proof (induction s arbitrary: i k)
  case Nil
  then show ?case by (simp add: first_index_def)
next
  case (Cons x xs)
  show ?case
  proof (cases "x = c")
    case True
    with Cons.prems show ?thesis by (simp add: first_index_Cons)
  next
    case False
    with Cons.prems obtain k' where k': "k = Suc k'" "first_index xs c k'"
      by (auto simp: first_index_Cons)
    from Cons.IH [OF k'(2), of "Suc i"] False k'(1) show ?thesis by simp
  qed
qed

lemma first_index_exists: "c \<in> set s \<Longrightarrow> \<exists>k. first_index s c k"
proof (induction s)
  case Nil
  then show ?case by simp
next
  case (Cons x xs)
  show ?case
  proof (cases "x = c")
    case True
    then have "first_index (x # xs) c 0" by (simp add: first_index_Cons)
    then show ?thesis ..
  next
    case False
    with Cons obtain k where "first_index xs c k" by auto
    with False have "first_index (x # xs) c (Suc k)" by (simp add: first_index_Cons)
    then show ?thesis ..
  qed
qed

lemma py_find_first: "first_index s c k \<Longrightarrow> py_find s c = int k"
  by (simp add: py_find_def find_from_first)

lemma py_find_absent: "py_find s c = - 1 \<longleftrightarrow> c \<notin> set s"
  by (simp add: py_find_def find_from_absent)

lemma last_index_rev:
  "last_index s c j \<longleftrightarrow> j < length s \<and> first_index (rev s) c (length s - 1 - j)"
proof (cases "j < length s")
  case False
  then show ?thesis by (simp add: last_index_def)
next
  case True
  have a: "(\<forall>k. j < k \<and> k < length s \<longrightarrow> s ! k \<noteq> c) \<longleftrightarrow> (\<forall>m<length s - 1 - j. rev s ! m \<noteq> c)"
  proof
    assume h: "\<forall>k. j < k \<and> k < length s \<longrightarrow> s ! k \<noteq> c"
    show "\<forall>m<length s - 1 - j. rev s ! m \<noteq> c"
    proof (intro allI impI)
      fix m assume m: "m < length s - 1 - j"
      then have "rev s ! m = s ! (length s - Suc m)" by (simp add: rev_nth)
      moreover from m have "j < length s - Suc m" "length s - Suc m < length s" by arith+
      ultimately show "rev s ! m \<noteq> c" using h by simp
    qed
  next
    assume h: "\<forall>m<length s - 1 - j. rev s ! m \<noteq> c"
    show "\<forall>k. j < k \<and> k < length s \<longrightarrow> s ! k \<noteq> c"
    proof (intro allI impI)
      fix k assume k: "j < k \<and> k < length s"
      then have "length s - Suc k < length s - 1 - j" by arith
      with h have "rev s ! (length s - Suc k) \<noteq> c" by blast
      moreover from k have e: "length s - Suc (length s - Suc k) = k"
        and b: "length s - Suc k < length s" by arith+
      from rev_nth [OF b] e have "rev s ! (length s - Suc k) = s ! k" by simp
      ultimately show "s ! k \<noteq> c" by simp
    qed
  qed
  from True have "rev s ! (length s - 1 - j) = s ! j" by (simp add: rev_nth)
  with True a show ?thesis by (auto simp: last_index_def first_index_def)
qed

lemma py_rfind_last: "last_index s c j \<Longrightarrow> py_rfind s c = int j"
proof -
  assume l: "last_index s c j"
  then have j: "j < length s" and f: "first_index (rev s) c (length s - 1 - j)"
    by (simp_all add: last_index_rev)
  from f have "py_find (rev s) c = int (length s - 1 - j)" by (rule py_find_first)
  with j show ?thesis by (simp add: py_rfind_def Let_def)
qed

lemma py_rfind_absent: "py_rfind s c = - 1 \<longleftrightarrow> c \<notin> set s"
proof
  assume "py_rfind s c = - 1"
  then show "c \<notin> set s"
    using py_find_absent [of "rev s" c] first_index_exists [of c "rev s"]
      py_find_first [of "rev s" c]
    by (auto simp: py_rfind_def Let_def first_index_def split: if_splits)
next
  assume "c \<notin> set s"
  then show "py_rfind s c = - 1"
    using py_find_absent [of "rev s" c] by (simp add: py_rfind_def)
qed

lemma last_index_exists: "c \<in> set s \<Longrightarrow> \<exists>j. last_index s c j"
proof -
  assume "c \<in> set s"
  then have "c \<in> set (rev s)" by simp
  then obtain k where k: "first_index (rev s) c k" using first_index_exists by blast
  then have kl: "k < length s" by (simp add: first_index_def)
  then have "length s - 1 - (length s - 1 - k) = k" by arith
  with k kl have "last_index s c (length s - 1 - k)"
    by (simp add: last_index_rev)
  then show ?thesis ..
qed

lemma py_slice_nat: "py_slice s (int i) (int j + 1) = take (j + 1 - i) (drop i s)"
proof -
  have "nat (int j + 1 - int i) = j + 1 - i" by linarith
  then show ?thesis by (simp add: py_slice_def)
qed

lemma try_parse_json_steps:
  assumes "t \<noteq> []"
    and "sub_close_fence (sub_open_fence (py_strip t)) = s"
    and "py_find s 0x7B = f" and "py_rfind s 0x7D = l"
  shows "try_parse_json (PyStr t) =
           (case (if f \<noteq> - 1 \<and> l \<noteq> - 1 \<and> l > f
                  then json_loads (py_slice s f (l + 1)) else None) of
              Some v \<Rightarrow> Inr v
            | None \<Rightarrow> (case json_loads s of Some v \<Rightarrow> Inr v | None \<Rightarrow> Inr PyNone))"
  using assms by (auto simp: try_parse_json_def Let_def)

lemma try_parse_json_substring:
  assumes "t \<noteq> []" and "s = sub_close_fence (sub_open_fence (py_strip t))"
    and "first_index s 0x7B i" and "last_index s 0x7D j" and "i < j"
    and "json_loads (take (j + 1 - i) (drop i s)) = Some v"
  shows "try_parse_json (PyStr t) = Inr v"
proof -
  have f: "py_find s 0x7B = int i" using assms(3) by (rule py_find_first)
  have l: "py_rfind s 0x7D = int j" using assms(4) by (rule py_rfind_last)
  have "json_loads (py_slice s (int i) (int j + 1)) = Some v"
    using assms(6) by (simp add: py_slice_nat)
  with try_parse_json_steps [OF assms(1) assms(2) [symmetric] f l] assms(5)
  show ?thesis by simp
qed

lemma try_parse_json_whole:
  assumes "t \<noteq> []" and "s = sub_close_fence (sub_open_fence (py_strip t))"
    and "\<And>i j. first_index s 0x7B i \<Longrightarrow> last_index s 0x7D j \<Longrightarrow> i < j \<Longrightarrow>
           json_loads (take (j + 1 - i) (drop i s)) = None"
  shows "try_parse_json (PyStr t) =
           (case json_loads s of Some v \<Rightarrow> Inr v | None \<Rightarrow> Inr PyNone)"
proof (cases "0x7B \<in> set s \<and> 0x7D \<in> set s")
  case False
  then have "py_find s 0x7B = - 1 \<or> py_rfind s 0x7D = - 1"
    by (simp add: py_find_absent py_rfind_absent)
  with try_parse_json_steps [OF assms(1) assms(2) [symmetric] refl refl]
  show ?thesis by auto
next
  case True
  then obtain i j where i: "first_index s 0x7B i" and j: "last_index s 0x7D j"
    using first_index_exists last_index_exists by blast
  have f: "py_find s 0x7B = int i" using i by (rule py_find_first)
  have l: "py_rfind s 0x7D = int j" using j by (rule py_rfind_last)
  show ?thesis
  proof (cases "i < j")
    case True
    from assms(3) [OF i j True]
    have "json_loads (py_slice s (int i) (int j + 1)) = None" by (simp add: py_slice_nat)
    with try_parse_json_steps [OF assms(1) assms(2) [symmetric] f l] show ?thesis by simp
  next
    case False
    with try_parse_json_steps [OF assms(1) assms(2) [symmetric] f l] show ?thesis by simp
  qed
qed

lemmas fence_eval = py_def py_strip_def isspace_def sub_close_fence_def match_open_fence_def
  json_tag_def

lemmas loads_eval = py_def json_loads_def cons_tok_def cons_chr_def match_number_def
  match_integer_def match_frac_def match_exp_def isdigit_def digits_val_def Let_def
  decode_uXXXX_def hexval_def backslash_def

lemma first_index_mem: "first_index s c i \<Longrightarrow> c \<in> set s"
  by (auto simp: first_index_def)

lemma no_json_clean:
  "sub_close_fence (sub_open_fence (py_strip (py ''not json at all''))) = py ''not json at all''"
  by (simp add: fence_eval)

lemma no_json_loads: "json_loads (py ''not json at all'') = None"
  by (simp add: loads_eval)

lemma no_json_brace: "0x7B \<notin> set (py ''not json at all'')"
  by (simp add: py_def)

section \<open>The decoder on a text that starts with a brace\<close>

lemma obj_ctx_Cons: "obj_ctx (c # cs) \<longleftrightarrow> (if cs = [] then (\<exists>d k. c = CObj d k) else obj_ctx cs)"
  by (cases cs rule: rev_cases; cases c) (auto simp: obj_ctx_def split: list.splits ctx.splits)

lemma obj_ctx_Nil: "\<not> obj_ctx []"
  by (simp add: obj_ctx_def)

lemma put_obj_root: "obj_ctx cs \<Longrightarrow> obj_root (put v cs)"
  by (cases "(v, cs)" rule: put.cases) (auto simp: obj_ctx_Cons obj_ctx_Nil split: if_splits)

lemma put_dict_obj_root: "cs = [] \<or> obj_ctx cs \<Longrightarrow> obj_root (put (PyDict d) cs)"
  by (cases "cs = []") (auto simp: is_mapping_def put_obj_root)

lemma start_value_obj_root:
  "obj_ctx cs \<Longrightarrow> start_value cs t = Some st \<Longrightarrow> obj_root st"
  by (cases "(cs, t)" rule: start_value.cases) (auto simp: put_obj_root)

lemma step_obj_root: "obj_root st \<Longrightarrow> step st t = Some st' \<Longrightarrow> obj_root st'"
proof (cases st)
  case (SValue cs)
  then show "obj_root st \<Longrightarrow> step st t = Some st' \<Longrightarrow> obj_root st'"
    by (auto dest: start_value_obj_root)
next
  case (SArrFirst cs)
  then show "obj_root st \<Longrightarrow> step st t = Some st' \<Longrightarrow> obj_root st'"
    by (auto simp: put_obj_root obj_ctx_Cons obj_ctx_Nil split: if_splits
        dest!: start_value_obj_root [rotated])
next
  case (SArrNext acc cs)
  then show "obj_root st \<Longrightarrow> step st t = Some st' \<Longrightarrow> obj_root st'"
    by (auto simp: put_obj_root obj_ctx_Cons obj_ctx_Nil split: if_splits)
next
  case (SObjFirst cs)
  then show "obj_root st \<Longrightarrow> step st t = Some st' \<Longrightarrow> obj_root st'"
    by (auto simp: is_mapping_def put_obj_root split: token.splits)
next
  case (SObjKey d cs)
  then show "obj_root st \<Longrightarrow> step st t = Some st' \<Longrightarrow> obj_root st'"
    by (auto split: token.splits)
next
  case (SColon d k cs)
  then show "obj_root st \<Longrightarrow> step st t = Some st' \<Longrightarrow> obj_root st'"
    by (auto simp: obj_ctx_Cons split: if_splits)
next
  case (SObjNext d cs)
  then show "obj_root st \<Longrightarrow> step st t = Some st' \<Longrightarrow> obj_root st'"
    by (auto simp: is_mapping_def put_obj_root split: if_splits)
next
  case (SDone v)
  then show "obj_root st \<Longrightarrow> step st t = Some st' \<Longrightarrow> obj_root st'"
    by simp
qed

lemma run_obj_root: "obj_root st \<Longrightarrow> run st ts = Some st' \<Longrightarrow> obj_root st'"
proof (induction ts arbitrary: st)
  case Nil
  then show ?case by simp
next
  case (Cons t ts)
  from Cons.prems(2) obtain st1 where s: "step st t = Some st1" and r: "run st1 ts = Some st'"
    by (auto split: option.splits)
  from step_obj_root [OF Cons.prems(1) s] r show ?case by (rule Cons.IH)
qed

lemma json_loads_brace:
  assumes "json_loads (0x7B # cs) = Some v"
  shows "is_mapping v"
proof -
  from assms obtain ts where ts: "tokenize (0x7B # cs) = Some ts"
    and r: "run (SValue []) ts = Some (SDone v)"
    by (auto simp: json_loads_def split: option.splits pstate.splits)
  from ts obtain ts' where "ts = TLBrace # ts'"
    by (auto simp: cons_tok_def)
  with r have "run (SObjFirst []) ts' = Some (SDone v)" by simp
  from run_obj_root [OF _ this] show ?thesis by simp
qed

section \<open>Evaluating the normalizer\<close>

lemma first_index_of_find: "py_find s c = int i \<Longrightarrow> first_index s c i"
proof -
  assume a: "py_find s c = int i"
  then have "c \<in> set s" using py_find_absent [of s c] by auto
  then obtain k where k: "first_index s c k" using first_index_exists by blast
  from py_find_first [OF k] a have "k = i" by simp
  with k show ?thesis by simp
qed

lemma last_index_of_rfind: "py_rfind s c = int j \<Longrightarrow> last_index s c j"
proof -
  assume a: "py_rfind s c = int j"
  then have "c \<in> set s" using py_rfind_absent [of s c] by auto
  then obtain k where k: "last_index s c k" using last_index_exists by blast
  from py_rfind_last [OF k] a have "k = j" by simp
  with k show ?thesis by simp
qed

lemma brace_slice_mapping:
  assumes "first_index s 0x7B i" and "json_loads (take (j + 1 - i) (drop i s)) = Some v"
    and "i < j"
  shows "is_mapping v"
proof -
  from assms(1) have i: "i < length s" and si: "s ! i = 0x7B" by (simp_all add: first_index_def)
  from i have "drop i s = s ! i # drop (Suc i) s" by (simp add: Cons_nth_drop_Suc)
  moreover from assms(3) have "j + 1 - i = Suc (j - i)" by arith
  ultimately have "take (j + 1 - i) (drop i s) = 0x7B # take (j - i) (drop (Suc i) s)"
    using si by simp
  with assms(2) show ?thesis using json_loads_brace by simp
qed

lemma try_parse_json_eval:
  assumes "t \<noteq> []"
    and "sub_close_fence (sub_open_fence (py_strip t)) = s"
    and "py_find s 0x7B = f" and "py_rfind s 0x7D = l"
    and "f \<noteq> - 1 \<and> l \<noteq> - 1 \<and> l > f"
    and "py_slice s f (l + 1) = sub"
    and "json_loads sub = Some v"
  shows "try_parse_json (PyStr t) = Inr v"
  using try_parse_json_steps [OF assms(1-4)] assms(5-7) by simp

lemma fenced_example:
  \<open>try_parse_json (PyStr (py ''```json\<newline>{"priority":"High"}\<newline>```'')) =
     Inr (PyDict [(py ''priority'', PyStr (py ''High''))])\<close>
proof (rule try_parse_json_eval)
  show \<open>py ''```json\<newline>{"priority":"High"}\<newline>```'' \<noteq> []\<close>
    by (simp add: py_def)
  show \<open>sub_close_fence (sub_open_fence (py_strip (py ''```json\<newline>{"priority":"High"}\<newline>```''))) =
     py ''{"priority":"High"}''\<close>
    by (simp add: fence_eval)
  show \<open>py_find (py ''{"priority":"High"}'') 0x7B = 0\<close>
    by (simp add: py_def py_find_def)
  show \<open>py_rfind (py ''{"priority":"High"}'') 0x7D = 18\<close>
    by (simp add: py_def py_find_def py_rfind_def)
  show "(0::int) \<noteq> - 1 \<and> (18::int) \<noteq> - 1 \<and> (18::int) > 0" by simp
  show \<open>py_slice (py ''{"priority":"High"}'') 0 (18 + 1) = py ''{"priority":"High"}''\<close>
    by (simp add: py_def py_slice_def)
  show \<open>json_loads (py ''{"priority":"High"}'') =
     Some (PyDict [(py ''priority'', PyStr (py ''High''))])\<close>
    by (simp add: loads_eval)
qed

lemma prose_clean:
  \<open>sub_close_fence (sub_open_fence (py_strip (py ''Here is the result: {"a":1} -- end''))) =
     py ''Here is the result: {"a":1} -- end''\<close>
  by (simp add: fence_eval)

lemma prose_find: \<open>py_find (py ''Here is the result: {"a":1} -- end'') 0x7B = int 20\<close>
  by (simp add: py_def py_find_def)

lemma prose_rfind: \<open>py_rfind (py ''Here is the result: {"a":1} -- end'') 0x7D = int 26\<close>
  by (simp add: py_def py_find_def py_rfind_def)

lemma prose_slice:
  \<open>take (26 + 1 - 20) (drop 20 (py ''Here is the result: {"a":1} -- end'')) = py ''{"a":1}''\<close>
  by (simp add: py_def)

lemma prose_loads: \<open>json_loads (py ''{"a":1}'') = Some (PyDict [(py ''a'', PyInt 1)])\<close>
  by (simp add: loads_eval)

lemma prose_example:
  \<open>try_parse_json (PyStr (py ''Here is the result: {"a":1} -- end'')) =
     Inr (PyDict [(py ''a'', PyInt 1)])\<close>
proof (rule try_parse_json_substring [where i = 20 and j = 26])
  show \<open>py ''Here is the result: {"a":1} -- end'' \<noteq> []\<close> by (simp add: py_def)
  show \<open>py ''Here is the result: {"a":1} -- end'' =
    sub_close_fence (sub_open_fence (py_strip (py ''Here is the result: {"a":1} -- end'')))\<close>
    by (simp add: prose_clean)
  show \<open>first_index (py ''Here is the result: {"a":1} -- end'') 0x7B 20\<close>
    using prose_find by (rule first_index_of_find)
  show \<open>last_index (py ''Here is the result: {"a":1} -- end'') 0x7D 26\<close>
    using prose_rfind by (rule last_index_of_rfind)
  show "(20::nat) < 26" by simp
  show \<open>json_loads (take (26 + 1 - 20) (drop 20 (py ''Here is the result: {"a":1} -- end''))) =
    Some (PyDict [(py ''a'', PyInt 1)])\<close>
    by (simp only: prose_slice prose_loads)
qed

lemma number_example: \<open>try_parse_json (PyStr (py ''123'')) = Inr (PyInt 123)\<close>
proof -
  have a: \<open>py ''123'' \<noteq> []\<close> by (simp add: py_def)
  have b: \<open>sub_close_fence (sub_open_fence (py_strip (py ''123''))) = py ''123''\<close>
    by (simp add: fence_eval)
  have c: \<open>py_find (py ''123'') 0x7B = - 1\<close> by (simp add: py_def py_find_def)
  have d: \<open>json_loads (py ''123'') = Some (PyInt 123)\<close> by (simp add: loads_eval)
  from try_parse_json_steps [OF a b c refl] d show ?thesis by simp
qed

lemma py_strip_backticks: "py_strip (0x60 # m @ [0x60]) = 0x60 # m @ [0x60]"
  by (simp add: py_strip_def isspace_def)

lemma json_tag_shape: "json_tag t \<Longrightarrow> length t = 4 \<and> t \<noteq> [] \<and> hd t \<noteq> 0x0A"
  by (auto simp: json_tag_def split: list.splits)

lemma match_open_fence_tagged:
  assumes "tag = [] \<or> json_tag tag"
  shows "match_open_fence ([0x60, 0x60, 0x60] @ tag @ [0x0A] @ rest) = Some rest"
proof (cases "tag = []")
  case True
  have "\<not> json_tag (take 4 (0x0A # rest))"
    using json_tag_shape [of "take 4 (0x0A # rest)"] by auto
  with True show ?thesis by (simp add: match_open_fence_def)
next
  case False
  with assms have t: "json_tag tag" by simp
  then have "length tag = 4" by (simp add: json_tag_shape)
  with t show ?thesis by (simp add: match_open_fence_def)
qed

lemma match_open_fence_other: "c \<noteq> 0x60 \<Longrightarrow> match_open_fence (c # cs) = None"
  by (simp add: match_open_fence_def)

lemma sub_open_fence_tail:
  "0x60 \<notin> set body \<Longrightarrow>
   sub_open_fence (body @ [0x0A, 0x60, 0x60, 0x60]) = body @ [0x0A, 0x60, 0x60, 0x60]"
proof (induction body)
  case Nil
  show ?case by (simp add: match_open_fence_def json_tag_def)
next
  case (Cons c body)
  then have "c \<noteq> 0x60" by auto
  then have "match_open_fence (c # body @ [0x0A, 0x60, 0x60, 0x60]) = None"
    by (rule match_open_fence_other)
  with Cons show ?case by simp
qed

lemma sub_close_fence_tail: "sub_close_fence (body @ [0x0A, 0x60, 0x60, 0x60]) = body"
  by (simp add: sub_close_fence_def)

lemma strip_fenced:
  assumes "tag = [] \<or> json_tag tag" and "0x60 \<notin> set body"
  shows "sub_close_fence (sub_open_fence (py_strip
           ([0x60, 0x60, 0x60] @ tag @ [0x0A] @ body @ [0x0A, 0x60, 0x60, 0x60]))) = body"
proof -
  let ?rest = "body @ [0x0A, 0x60, 0x60, 0x60]"
  let ?text = "[0x60, 0x60, 0x60] @ tag @ [0x0A] @ ?rest"
  have "?text = 0x60 # ([0x60, 0x60] @ tag @ [0x0A] @ body @ [0x0A, 0x60, 0x60]) @ [0x60]"
    by simp
  then have a: "py_strip ?text = ?text"
    using py_strip_backticks by metis
  have "?text = 0x60 # ([0x60, 0x60] @ tag @ [0x0A] @ ?rest)" by simp
  moreover have "match_open_fence ?text = Some ?rest"
    using assms(1) by (rule match_open_fence_tagged)
  ultimately have b: "sub_open_fence ?text = sub_open_fence ?rest"
    by (metis option.simps(5) sub_open_fence.simps(2))
  show ?thesis
    using a b sub_open_fence_tail [OF assms(2)] sub_close_fence_tail [of body]
    by (simp only:)
qed

lemma list_fenced_json:
  \<open>try_parse_json (PyStr (py ''```json\<newline>[1]\<newline>```'')) = Inr (PyList [PyInt 1])\<close>
proof -
  have a: \<open>py ''```json\<newline>[1]\<newline>```'' \<noteq> []\<close> by (simp add: py_def)
  have b: \<open>sub_close_fence (sub_open_fence (py_strip (py ''```json\<newline>[1]\<newline>```''))) = py ''[1]''\<close>
    by (simp add: fence_eval)
  have c: \<open>py_find (py ''[1]'') 0x7B = - 1\<close> by (simp add: py_def py_find_def)
  have d: \<open>json_loads (py ''[1]'') = Some (PyList [PyInt 1])\<close> by (simp add: loads_eval)
  from try_parse_json_steps [OF a b c refl] d show ?thesis by simp
qed

lemma list_fenced_python:
  \<open>try_parse_json (PyStr (py ''```python\<newline>[1]\<newline>```'')) = Inr PyNone\<close>
proof -
  have a: \<open>py ''```python\<newline>[1]\<newline>```'' \<noteq> []\<close> by (simp add: py_def)
  have b: \<open>sub_close_fence (sub_open_fence (py_strip (py ''```python\<newline>[1]\<newline>```''))) =
      py ''```python\<newline>[1]''\<close>
    by (simp add: fence_eval)
  have c: \<open>py_find (py ''```python\<newline>[1]'') 0x7B = - 1\<close> by (simp add: py_def py_find_def)
  have d: \<open>json_loads (py ''```python\<newline>[1]'') = None\<close> by (simp add: loads_eval)
  from try_parse_json_steps [OF a b c refl] d show ?thesis by simp
qed

lemma python_fence_clean:
  \<open>sub_close_fence (sub_open_fence (py_strip (py ''```python\<newline>[1]\<newline>```''))) =
     py ''```python\<newline>[1]''\<close>
  by (simp add: fence_eval)

lemma list_loads: \<open>json_loads (py ''[1]'') = Some (PyList [PyInt 1])\<close>
  by (simp add: loads_eval)

section \<open>Claims about the response normalizer\<close>

text \<open>
  C6.  For every string input, the empty string and text that is not JSON included, the
  normalizer returns a value and raises nothing.  For the empty string the value is
  \<^verbatim>\<open>None\<close>.  When neither attempt succeeds (every brace-bounded substring that is tried is
  rejected by the decoder, and so is the whole stripped text) the value is \<^verbatim>\<open>None\<close>; so it
  is for the text \<^verbatim>\<open>not json at all\<close>.
\<close>

theorem try_parse_json_never_raises:
  "(\<exists>v. try_parse_json (PyStr t) = Inr v) \<and>
   try_parse_json (PyStr []) = Inr PyNone \<and>
   (t \<noteq> [] \<and> s = sub_close_fence (sub_open_fence (py_strip t)) \<and>
    (\<forall>i j. first_index s 0x7B i \<and> last_index s 0x7D j \<and> i < j \<longrightarrow>
       json_loads (take (j + 1 - i) (drop i s)) = None) \<and>
    json_loads s = None \<longrightarrow>
    try_parse_json (PyStr t) = Inr PyNone) \<and>
   try_parse_json (PyStr (py ''not json at all'')) = Inr PyNone"
proof (intro conjI impI)
  show "\<exists>v. try_parse_json (PyStr t) = Inr v"
    by (simp add: try_parse_json_def Let_def split: option.splits)
  show "try_parse_json (PyStr []) = Inr PyNone"
    by (simp add: try_parse_json_def)
next
  assume h: "t \<noteq> [] \<and> s = sub_close_fence (sub_open_fence (py_strip t)) \<and>
    (\<forall>i j. first_index s 0x7B i \<and> last_index s 0x7D j \<and> i < j \<longrightarrow>
       json_loads (take (j + 1 - i) (drop i s)) = None) \<and>
    json_loads s = None"
  then have "try_parse_json (PyStr t) =
      (case json_loads s of Some v \<Rightarrow> Inr v | None \<Rightarrow> Inr PyNone)"
    by (intro try_parse_json_whole) auto
  with h show "try_parse_json (PyStr t) = Inr PyNone" by auto
next
  have "py ''not json at all'' \<noteq> []" by (simp add: py_def)
  then have "try_parse_json (PyStr (py ''not json at all'')) =
      (case json_loads (py ''not json at all'') of Some v \<Rightarrow> Inr v | None \<Rightarrow> Inr PyNone)"
    using no_json_brace
    by (intro try_parse_json_whole) (auto simp: no_json_clean dest: first_index_mem)
  then show "try_parse_json (PyStr (py ''not json at all'')) = Inr PyNone"
    by (simp add: no_json_loads)
qed

theorem try_parse_json_never_raises_witness:
  "py ''not json at all'' \<noteq> [] \<and>
   json_loads (py ''not json at all'') = None \<and>
   try_parse_json (PyStr (py ''not json at all'')) = Inr PyNone"
proof -
  let ?t = "py ''not json at all''"
  have a: "?t \<noteq> []" by (simp add: py_def)
  have b: "\<forall>i j. first_index ?t 0x7B i \<and> last_index ?t 0x7D j \<and> i < j \<longrightarrow>
       json_loads (take (j + 1 - i) (drop i ?t)) = None"
    using no_json_brace by (auto dest: first_index_mem)
  have "?t \<noteq> [] \<and> ?t = sub_close_fence (sub_open_fence (py_strip ?t)) \<and>
    (\<forall>i j. first_index ?t 0x7B i \<and> last_index ?t 0x7D j \<and> i < j \<longrightarrow>
       json_loads (take (j + 1 - i) (drop i ?t)) = None) \<and>
    json_loads ?t = None"
    using a b no_json_clean no_json_loads by simp
  with try_parse_json_never_raises [of ?t ?t]
  have "try_parse_json (PyStr ?t) = Inr PyNone" by blast
  with a no_json_loads show ?thesis by simp
qed

text \<open>
  C1 (amended).  The normalizer follows the ordered algorithm, first success wins.  The
  empty text gives \<^verbatim>\<open>None\<close>.  Otherwise the text is stripped: a surrounding fence whose
  opening marker carries no tag or the tag \<^verbatim>\<open>json\<close> (in any letter case) is removed, so
  that the body remains.  Then the substring from the first \<^verbatim>\<open>{\<close> through the last \<^verbatim>\<open>}\<close> is
  decoded and its value returned on success; only when that attempt is not made or fails
  is the whole stripped text decoded.  The two examples of the specification come out
  as stated.
\<close>

theorem try_parse_json_algorithm:
  \<open>try_parse_json (PyStr []) = Inr PyNone \<and>
   ((tag = [] \<or> json_tag tag) \<and> 0x60 \<notin> set body \<longrightarrow>
      sub_close_fence (sub_open_fence (py_strip
        ([0x60, 0x60, 0x60] @ tag @ [0x0A] @ body @ [0x0A, 0x60, 0x60, 0x60]))) = body) \<and>
   (t \<noteq> [] \<and> s = sub_close_fence (sub_open_fence (py_strip t)) \<and>
    first_index s 0x7B i \<and> last_index s 0x7D j \<and> i < j \<and>
    json_loads (take (j + 1 - i) (drop i s)) = Some v \<longrightarrow>
      try_parse_json (PyStr t) = Inr v) \<and>
   (t \<noteq> [] \<and> s = sub_close_fence (sub_open_fence (py_strip t)) \<and>
    (\<forall>i j. first_index s 0x7B i \<and> last_index s 0x7D j \<and> i < j \<longrightarrow>
       json_loads (take (j + 1 - i) (drop i s)) = None) \<longrightarrow>
      try_parse_json (PyStr t) = (case json_loads s of Some v \<Rightarrow> Inr v | None \<Rightarrow> Inr PyNone)) \<and>
   try_parse_json (PyStr (py ''```json\<newline>{"priority":"High"}\<newline>```'')) =
     Inr (PyDict [(py ''priority'', PyStr (py ''High''))]) \<and>
   try_parse_json (PyStr (py ''Here is the result: {"a":1} -- end'')) =
     Inr (PyDict [(py ''a'', PyInt 1)])\<close>
proof (intro conjI impI)
  show "try_parse_json (PyStr []) = Inr PyNone"
    by (simp add: try_parse_json_def)
next
  assume "(tag = [] \<or> json_tag tag) \<and> 0x60 \<notin> set body"
  then show "sub_close_fence (sub_open_fence (py_strip
        ([0x60, 0x60, 0x60] @ tag @ [0x0A] @ body @ [0x0A, 0x60, 0x60, 0x60]))) = body"
    using strip_fenced by blast
next
  assume "t \<noteq> [] \<and> s = sub_close_fence (sub_open_fence (py_strip t)) \<and>
    first_index s 0x7B i \<and> last_index s 0x7D j \<and> i < j \<and>
    json_loads (take (j + 1 - i) (drop i s)) = Some v"
  then show "try_parse_json (PyStr t) = Inr v"
    using try_parse_json_substring by blast
next
  assume "t \<noteq> [] \<and> s = sub_close_fence (sub_open_fence (py_strip t)) \<and>
    (\<forall>i j. first_index s 0x7B i \<and> last_index s 0x7D j \<and> i < j \<longrightarrow>
       json_loads (take (j + 1 - i) (drop i s)) = None)"
  then show "try_parse_json (PyStr t) =
      (case json_loads s of Some v \<Rightarrow> Inr v | None \<Rightarrow> Inr PyNone)"
    by (intro try_parse_json_whole) auto
next
  show \<open>try_parse_json (PyStr (py ''```json\<newline>{"priority":"High"}\<newline>```'')) =
     Inr (PyDict [(py ''priority'', PyStr (py ''High''))])\<close>
    by (rule fenced_example)
  show \<open>try_parse_json (PyStr (py ''Here is the result: {"a":1} -- end'')) =
     Inr (PyDict [(py ''a'', PyInt 1)])\<close>
    by (rule prose_example)
qed

theorem try_parse_json_algorithm_witness:
  \<open>first_index (py ''Here is the result: {"a":1} -- end'') 0x7B 20 \<and>
   last_index (py ''Here is the result: {"a":1} -- end'') 0x7D 26 \<and>
   json_loads (take (26 + 1 - 20) (drop 20 (py ''Here is the result: {"a":1} -- end''))) =
     Some (PyDict [(py ''a'', PyInt 1)]) \<and>
   try_parse_json (PyStr (py ''Here is the result: {"a":1} -- end'')) =
     Inr (PyDict [(py ''a'', PyInt 1)]) \<and>
   json_tag (py ''json'') \<and> 0x60 \<notin> set (py ''{"priority":"High"}'') \<and>
   sub_close_fence (sub_open_fence (py_strip
     ([0x60, 0x60, 0x60] @ py ''json'' @ [0x0A] @ py ''{"priority":"High"}'' @
      [0x0A, 0x60, 0x60, 0x60]))) = py ''{"priority":"High"}''\<close>
proof -
  let ?t = \<open>py ''Here is the result: {"a":1} -- end''\<close>
  let ?v = "PyDict [(py ''a'', PyInt 1)]"
  let ?b = \<open>py ''{"priority":"High"}''\<close>
  have a: "?t \<noteq> []" by (simp add: py_def)
  have b: "?t = sub_close_fence (sub_open_fence (py_strip ?t))" by (simp add: prose_clean)
  have c: "first_index ?t 0x7B 20" using prose_find by (rule first_index_of_find)
  have d: "last_index ?t 0x7D 26" using prose_rfind by (rule last_index_of_rfind)
  have e: "json_loads (take (26 + 1 - 20) (drop 20 ?t)) = Some ?v"
    by (simp only: prose_slice prose_loads)
  have f: "json_tag (py ''json'')" by (simp add: py_def json_tag_def)
  have g: "0x60 \<notin> set ?b" by (simp add: py_def)
  note th = try_parse_json_algorithm [of "py ''json''" ?b ?t ?t 20 26 ?v]
  from th a b c d e have r: "try_parse_json (PyStr ?t) = Inr ?v" by blast
  from th f g have
    "sub_close_fence (sub_open_fence (py_strip
       ([0x60, 0x60, 0x60] @ py ''json'' @ [0x0A] @ ?b @ [0x0A, 0x60, 0x60, 0x60]))) = ?b"
    by blast
  with c d e r f g show ?thesis by blast
qed

theorem try_parse_json_other_tag_counterexample:
  \<open>sub_close_fence (sub_open_fence (py_strip (py ''```python\<newline>[1]\<newline>```''))) =
     py ''```python\<newline>[1]'' \<and>
   try_parse_json (PyStr (py ''```python\<newline>[1]\<newline>```'')) = Inr PyNone \<and>
   json_loads (py ''[1]'') = Some (PyList [PyInt 1]) \<and>
   try_parse_json (PyStr (py ''```json\<newline>[1]\<newline>```'')) = Inr (PyList [PyInt 1])\<close>
  using python_fence_clean list_fenced_python list_loads list_fenced_json by blast

text \<open>
  C7 (amended).  For every string input the result is \<^verbatim>\<open>None\<close>, or a mapping, or the value
  that the decoder gives for the whole stripped text, which need not be a mapping.  A
  result that comes from the brace-bounded substring is always a mapping.
\<close>

theorem try_parse_json_result_shape:
  "(\<exists>v. try_parse_json (PyStr t) = Inr v \<and>
      (v = PyNone \<or> is_mapping v \<or>
       json_loads (sub_close_fence (sub_open_fence (py_strip t))) = Some v)) \<and>
   (t \<noteq> [] \<and> s = sub_close_fence (sub_open_fence (py_strip t)) \<and>
    first_index s 0x7B i \<and> last_index s 0x7D j \<and> i < j \<and>
    json_loads (take (j + 1 - i) (drop i s)) = Some w \<longrightarrow>
      try_parse_json (PyStr t) = Inr w \<and> is_mapping w)"
proof (intro conjI impI)
  let ?s = "sub_close_fence (sub_open_fence (py_strip t))"
  show "\<exists>v. try_parse_json (PyStr t) = Inr v \<and>
      (v = PyNone \<or> is_mapping v \<or> json_loads ?s = Some v)"
  proof (cases "t = []")
    case True
    then show ?thesis by (simp add: try_parse_json_def)
  next
    case False
    show ?thesis
    proof (cases "\<exists>i j v. first_index ?s 0x7B i \<and> last_index ?s 0x7D j \<and> i < j \<and>
        json_loads (take (j + 1 - i) (drop i ?s)) = Some v")
      case True
      then obtain i j v where h: "first_index ?s 0x7B i" "last_index ?s 0x7D j" "i < j"
        "json_loads (take (j + 1 - i) (drop i ?s)) = Some v" by blast
      from try_parse_json_substring [OF False refl h]
        brace_slice_mapping [OF h(1) h(4) h(3)]
      show ?thesis by blast
    next
      case no: False
      have "try_parse_json (PyStr t) =
          (case json_loads ?s of Some v \<Rightarrow> Inr v | None \<Rightarrow> Inr PyNone)"
      proof (rule try_parse_json_whole [OF False refl])
        fix i j
        assume "first_index ?s 0x7B i" "last_index ?s 0x7D j" "i < j"
        with no show "json_loads (take (j + 1 - i) (drop i ?s)) = None"
          by (cases "json_loads (take (j + 1 - i) (drop i ?s))") auto
      qed
      then show ?thesis by (cases "json_loads ?s") auto
    qed
  qed
next
  assume h: "t \<noteq> [] \<and> s = sub_close_fence (sub_open_fence (py_strip t)) \<and>
    first_index s 0x7B i \<and> last_index s 0x7D j \<and> i < j \<and>
    json_loads (take (j + 1 - i) (drop i s)) = Some w"
  then show "try_parse_json (PyStr t) = Inr w"
    using try_parse_json_substring by blast
  from h show "is_mapping w"
    using brace_slice_mapping by blast
qed

theorem try_parse_json_result_shape_witness:
  \<open>first_index (py ''Here is the result: {"a":1} -- end'') 0x7B 20 \<and>
   last_index (py ''Here is the result: {"a":1} -- end'') 0x7D 26 \<and>
   try_parse_json (PyStr (py ''Here is the result: {"a":1} -- end'')) =
     Inr (PyDict [(py ''a'', PyInt 1)]) \<and>
   is_mapping (PyDict [(py ''a'', PyInt 1)])\<close>
proof -
  let ?t = \<open>py ''Here is the result: {"a":1} -- end''\<close>
  let ?v = "PyDict [(py ''a'', PyInt 1)]"
  have a: "?t \<noteq> []" by (simp add: py_def)
  have b: "?t = sub_close_fence (sub_open_fence (py_strip ?t))" by (simp add: prose_clean)
  have c: "first_index ?t 0x7B 20" using prose_find by (rule first_index_of_find)
  have d: "last_index ?t 0x7D 26" using prose_rfind by (rule last_index_of_rfind)
  have e: "json_loads (take (26 + 1 - 20) (drop 20 ?t)) = Some ?v"
    by (simp only: prose_slice prose_loads)
  have h: "?t \<noteq> [] \<and> ?t = sub_close_fence (sub_open_fence (py_strip ?t)) \<and>
    first_index ?t 0x7B 20 \<and> last_index ?t 0x7D 26 \<and> (20::nat) < 26 \<and>
    json_loads (take (26 + 1 - 20) (drop 20 ?t)) = Some ?v"
    using a b c d e by simp
  have "try_parse_json (PyStr ?t) = Inr ?v \<and> is_mapping ?v"
    by (rule mp [OF conjunct2 [OF try_parse_json_result_shape [of ?t ?t 20 26 ?v]] h])
  with c d show ?thesis by simp
qed

theorem try_parse_json_number_counterexample:
  \<open>try_parse_json (PyStr (py ''123'')) = Inr (PyInt 123) \<and>
   PyInt 123 \<noteq> PyNone \<and> \<not> is_mapping (PyInt 123)\<close>
  using number_example by (simp add: is_mapping_def)

section \<open>Facts about the client\<close>

lemma bind_exc_Inr: "bind_exc m f = Inr y \<longleftrightarrow> (\<exists>x. m = Inr x \<and> f x = Inr y)"
  by (cases m) (auto simp: bind_exc_def)

lemma bind_exc_simps: "bind_exc (Inl e) f = Inl e" "bind_exc (Inr x) f = f x"
  by (simp_all add: bind_exc_def)

lemma response_json_Inr:
  "response_json out = Inr j \<longleftrightarrow> (\<exists>st. out = Response st (Some j) \<and> \<not> (400 \<le> st \<and> st < 600))"
  by (cases out) (auto simp: response_json_def split: option.splits)

lemma sap_result_Inr:
  assumes "sap_result out = Inr res"
  shows "\<exists>text parsed raw. res = PyDict [(py ''text'', text), (py ''json'', parsed), (py ''raw'', raw)] \<and>
           try_parse_json text = Inr parsed \<and> response_json out = Inr raw"
  using assms by (auto simp: sap_result_def bind_exc_Inr)

lemma local_result_Inr:
  assumes "local_result ev out = Inr res"
  shows "\<exists>text parsed raw. res = PyDict [(py ''text'', text), (py ''json'', parsed), (py ''raw'', raw)] \<and>
           try_parse_json text = Inr parsed \<and> response_json out = Inr raw"
  using assms by (auto simp: local_result_def bind_exc_Inr)

lemma get_access_token_log:
  "snd (get_access_token ev c log) = log @ [TokenPost (token_url c) (client_id c) (client_secret c) 15]"
  by (simp add: get_access_token_def http_post_def split: sum.splits)

lemma get_access_token_Inl:
  "fst (get_access_token ev c log) = Inl e \<Longrightarrow>
   e = LLMError (Msg (py ''SAP AI Core authentication failed''))"
  by (auto simp: get_access_token_def http_post_def split: sum.splits)

lemma call_sap_unconfigured:
  "\<not> configured c \<Longrightarrow>
   call_sap_aicore ev c prompt log =
     (Inl (LLMError (Msg (py ''SAP AI Core configuration missing''))), log)"
  by (simp add: call_sap_aicore_def configured_def)

lemma call_sap_token_failed:
  assumes "configured c" and "fst (get_access_token ev c log) = Inl e"
  shows "call_sap_aicore ev c prompt log =
     (Inl (LLMError (Msg (py ''SAP AI Core authentication failed''))),
      log @ [TokenPost (token_url c) (client_id c) (client_secret c) 15])"
proof -
  from assms(2) have "e = LLMError (Msg (py ''SAP AI Core authentication failed''))"
    by (rule get_access_token_Inl)
  with assms(2) get_access_token_log [of ev c log]
  have "get_access_token ev c log =
     (Inl (LLMError (Msg (py ''SAP AI Core authentication failed''))),
      log @ [TokenPost (token_url c) (client_id c) (client_secret c) 15])"
    by (cases "get_access_token ev c log") simp
  with assms(1) show ?thesis by (simp add: call_sap_aicore_def configured_def)
qed

lemma call_sap_token_ok:
  assumes "configured c" and "fst (get_access_token ev c log) = Inr token"
    and "log1 = log @ [TokenPost (token_url c) (client_id c) (client_secret c) 15]"
    and "rq = InferencePost (inference_url c) token (model_name c) prompt
               (max_tokens c) (temperature c) 60"
  shows "call_sap_aicore ev c prompt log =
     ((case sap_result (post ev log1 rq) of
         Inl e \<Rightarrow> Inl (LLMError (StrOf e)) | Inr res \<Rightarrow> Inr res),
      log1 @ [rq])"
proof -
  from assms(2,3) get_access_token_log [of ev c log]
  have "get_access_token ev c log = (Inr token, log1)"
    by (cases "get_access_token ev c log") simp
  with assms(1,4) show ?thesis
    by (simp add: call_sap_aicore_def configured_def http_post_def split: sum.splits)
qed

lemma call_local_unconfigured:
  "\<not> present (local_url c) \<Longrightarrow>
   call_local ev c prompt log = (Inl (LLMError (Msg (py ''LOCAL_LLM_URL not set''))), log)"
  by (simp add: call_local_def)

lemma call_local_configured:
  assumes "present (local_url c)" and "rq = LocalPost (local_url c) prompt 60"
  shows "call_local ev c prompt log =
     ((case local_result ev (post ev log rq) of
         Inl e \<Rightarrow> Inl (LLMError (StrOf e)) | Inr res \<Rightarrow> Inr res),
      log @ [rq])"
  using assms by (simp add: call_local_def http_post_def split: sum.splits)

lemma provider_names:
  "py ''local'' \<noteq> py ''sap_aicore''" "py ''ollama'' \<noteq> py ''sap_aicore''"
  "py ''vllm'' \<noteq> py ''sap_aicore''"
  by (simp_all add: py_def)

lemma analyze_sap: "provider c = py ''sap_aicore'' \<Longrightarrow> analyze ev c prompt log = call_sap_aicore ev c prompt log"
  by (simp add: analyze_def)

lemma analyze_local: "is_local c \<Longrightarrow> analyze ev c prompt log = call_local ev c prompt log"
  using provider_names by (auto simp: analyze_def is_local_def)

lemma py_eq_iff: "py a = py b \<longleftrightarrow> a = b"
proof -
  have "inj (of_char :: char \<Rightarrow> nat)" by (rule inj_of_char)
  then have "inj (map (of_char :: char \<Rightarrow> nat))" by simp
  then show ?thesis by (simp add: py_def inj_eq)
qed

lemma hello_parse: "try_parse_json (PyStr (py ''hello'')) = Inr PyNone"
proof -
  have a: "py ''hello'' \<noteq> []" by (simp add: py_def)
  have b: "sub_close_fence (sub_open_fence (py_strip (py ''hello''))) = py ''hello''"
    by (simp add: fence_eval)
  have c: "py_find (py ''hello'') 0x7B = - 1" by (simp add: py_def py_find_def)
  have d: "json_loads (py ''hello'') = None" by (simp add: loads_eval)
  from try_parse_json_steps [OF a b c refl] d show ?thesis by simp
qed

lemma py_Nil_iff: "py a = [] \<longleftrightarrow> a = []"
  by (simp add: py_def)

lemma demo_configured: "configured demo_client"
  by (simp add: configured_def demo_client_def present_def py_Nil_iff)

lemma demo_provider: "provider demo_client = py ''sap_aicore''"
  by (simp add: demo_client_def)

lemma demo_token:
  "fst (get_access_token (fixed_env token_ok x y) c log) = Inr (PyStr (py ''tok123''))"
  by (simp add: get_access_token_def http_post_def fixed_env_def token_ok_def
      response_json_def bind_exc_def py_getitem_def)

lemma demo_completion:
  "sap_result completion_ok =
     Inr (PyDict [(py ''text'', PyStr (py ''hello'')), (py ''json'', PyNone),
       (py ''raw'', PyDict [(py ''choices'',
          PyList [PyDict [(py ''message'', PyDict [(py ''content'', PyStr (py ''hello''))])]])])])"
  by (simp add: sap_result_def completion_ok_def response_json_def bind_exc_def py_get_def
      py_getitem0_def hello_parse)

lemma fixed_env_post:
  "post (fixed_env a b c) log (TokenPost u i s t) = a"
  "post (fixed_env a b c) log (InferencePost u tok m p mt te ti) = b"
  "post (fixed_env a b c) log (LocalPost u p t) = c"
  by (simp_all add: fixed_env_def)

lemma demo_run:
  "analyze (fixed_env token_ok completion_ok y) demo_client prompt [] =
     (Inr (PyDict [(py ''text'', PyStr (py ''hello'')), (py ''json'', PyNone),
        (py ''raw'', PyDict [(py ''choices'',
          PyList [PyDict [(py ''message'', PyDict [(py ''content'', PyStr (py ''hello''))])]])])]),
      [TokenPost (token_url demo_client) (client_id demo_client) (client_secret demo_client) 15,
       InferencePost (inference_url demo_client) (PyStr (py ''tok123'')) (model_name demo_client)
         prompt (max_tokens demo_client) (temperature demo_client) 60])"
  using call_sap_token_ok [OF demo_configured demo_token [of completion_ok y demo_client "[]"]
      refl refl, where prompt = prompt]
  by (simp add: analyze_sap [OF demo_provider] fixed_env_post demo_completion)

lemma try_parse_json_str_total: "\<exists>v. try_parse_json (PyStr t) = Inr v"
  by (simp add: try_parse_json_def Let_def split: option.splits)

lemma try_parse_json_not_str:
  "truthy x \<Longrightarrow> \<forall>t. x \<noteq> PyStr t \<Longrightarrow> try_parse_json x = Inl AttributeError"
  by (cases x) (auto simp: try_parse_json_def)

lemma first_populated_truthy: "first_populated d = Some x \<Longrightarrow> truthy x"
proof -
  let ?l = "List.map_filter (map_of d) [py ''result'', py ''text'', py ''output'']"
  assume "first_populated d = Some x"
  then obtain ys where "filter truthy ?l = x # ys"
    unfolding first_populated_def by (cases "filter truthy ?l") simp_all
  then have "x \<in> set (filter truthy ?l)" by (metis list.set_intros(1))
  then show ?thesis by (simp only: set_filter mem_Collect_eq)
qed

lemma local_select:
  "bind_exc (py_get (PyDict d) (py ''result'') PyNone) (\<lambda>a.
          if truthy a then Inr a
          else bind_exc (py_get (PyDict d) (py ''text'') PyNone) (\<lambda>b.
            if truthy b then Inr b
            else bind_exc (py_get (PyDict d) (py ''output'') PyNone) (\<lambda>c.
              if truthy c then Inr c else Inr (PyStr (dumps ev (PyDict d)))))) =
   Inr (case first_populated d of Some x \<Rightarrow> x | None \<Rightarrow> PyStr (dumps ev (PyDict d)))"
  by (auto simp: py_get_def bind_exc_def first_populated_def List.map_filter_simps
      split: option.splits)

lemma local_result_dict:
  assumes "\<not> (400 \<le> st \<and> st < 600)"
  shows "local_result ev (Response st (Some (PyDict d))) =
     bind_exc (try_parse_json (case first_populated d of Some x \<Rightarrow> x
                                | None \<Rightarrow> PyStr (dumps ev (PyDict d)))) (\<lambda>parsed.
       Inr (PyDict [(py ''text'', (case first_populated d of Some x \<Rightarrow> x
                                | None \<Rightarrow> PyStr (dumps ev (PyDict d)))),
                    (py ''json'', parsed), (py ''raw'', PyDict d)]))"
proof -
  have "response_json (Response st (Some (PyDict d))) = Inr (PyDict d)"
    using assms by (auto simp: response_json_def)
  then show ?thesis
    unfolding local_result_def by (simp only: bind_exc_simps local_select)
qed

lemma sap_run:
  assumes "provider c = py ''sap_aicore''" and "configured c"
  shows "analyze (fixed_env token_ok completion_ok y) c prompt log =
     (Inr (PyDict [(py ''text'', PyStr (py ''hello'')), (py ''json'', PyNone),
        (py ''raw'', PyDict [(py ''choices'',
          PyList [PyDict [(py ''message'', PyDict [(py ''content'', PyStr (py ''hello''))])]])])]),
      log @ [TokenPost (token_url c) (client_id c) (client_secret c) 15,
       InferencePost (inference_url c) (PyStr (py ''tok123'')) (model_name c)
         prompt (max_tokens c) (temperature c) 60])"
  using call_sap_token_ok [OF assms(2) demo_token [of completion_ok y c log]
      refl refl, where prompt = prompt]
  by (simp add: analyze_sap [OF assms(1)] fixed_env_post demo_completion)

lemma token_denied:
  "fst (get_access_token (fixed_env (Response 401 None) x y) c log) =
     Inl (LLMError (Msg (py ''SAP AI Core authentication failed'')))"
  by (simp add: get_access_token_def http_post_def fixed_env_def response_json_def bind_exc_def)

lemma denied_run:
  "analyze (fixed_env (Response 401 None) x y) demo_client prompt [] =
     (Inl (LLMError (Msg (py ''SAP AI Core authentication failed''))),
      [TokenPost (token_url demo_client) (client_id demo_client) (client_secret demo_client) 15])"
  using call_sap_token_failed [OF demo_configured token_denied [of x y demo_client "[]"],
      where prompt = prompt]
  by (simp add: analyze_sap [OF demo_provider])

lemma server_error_run:
  "fst (analyze (fixed_env token_ok (Response 500 None) y) demo_client prompt []) =
     Inl (LLMError (StrOf (HTTPError 500)))"
  using call_sap_token_ok [OF demo_configured demo_token [of "Response 500 None" y demo_client "[]"]
      refl refl, where prompt = prompt]
  by (simp add: analyze_sap [OF demo_provider] fixed_env_post sap_result_def response_json_def
      bind_exc_def)

lemma no_token_url: "\<not> configured (demo_client\<lparr>token_url := None\<rparr>)"
  by (simp add: configured_def present_def)

lemma no_token_url_run:
  "analyze ev (demo_client\<lparr>token_url := None\<rparr>) prompt log =
     (Inl (LLMError (Msg (py ''SAP AI Core configuration missing''))), log)"
  using call_sap_unconfigured [OF no_token_url]
  by (simp add: analyze_def demo_client_def)

lemma empty_choices:
  "sap_result (Response 200 (Some (PyDict [(py ''choices'', PyList [])]))) = Inl IndexError"
  by (simp add: sap_result_def response_json_def bind_exc_def py_get_def py_getitem0_def)

lemma no_choices:
  "sap_result (Response 200 (Some (PyDict []))) =
     Inr (PyDict [(py ''text'', PyStr []), (py ''json'', PyNone), (py ''raw'', PyDict [])])"
  by (simp add: sap_result_def response_json_def bind_exc_def py_get_def py_getitem0_def
      try_parse_json_def)

lemma analyze_Inl_LLMError:
  assumes "analyze ev c prompt log = (Inl e, log')"
  shows "\<exists>m. e = LLMError m"
proof -
  consider (sap) "provider c = py ''sap_aicore''" | (loc) "is_local c"
    | (other) "provider c \<noteq> py ''sap_aicore''" "\<not> is_local c"
    by blast
  then show ?thesis
  proof cases
    case sap
    with assms have r: "call_sap_aicore ev c prompt log = (Inl e, log')"
      by (simp add: analyze_sap)
    show ?thesis
    proof (cases "configured c")
      case False
      with r call_sap_unconfigured [of c ev prompt log] show ?thesis by auto
    next
      case conf: True
      show ?thesis
      proof (cases "fst (get_access_token ev c log)")
        case (Inl e0)
        from call_sap_token_failed [OF conf Inl, where prompt = prompt] r show ?thesis by auto
      next
        case (Inr token)
        from call_sap_token_ok [OF conf Inr refl refl, where prompt = prompt] r
        show ?thesis by (auto split: sum.splits)
      qed
    qed
  next
    case loc
    with assms have r: "call_local ev c prompt log = (Inl e, log')"
      by (simp add: analyze_local)
    show ?thesis
    proof (cases "present (local_url c)")
      case False
      with r call_local_unconfigured [of c ev prompt log] show ?thesis by auto
    next
      case True
      from call_local_configured [OF True refl, of ev prompt log] r
      show ?thesis by (auto split: sum.splits)
    qed
  next
    case other
    with assms show ?thesis by (auto simp: analyze_def is_local_def)
  qed
qed

lemma local_present: "present (local_url local_client)"
  by (simp add: local_client_def present_def py_Nil_iff)

lemma populated_example:
  "first_populated [(py ''result'', PyStr []), (py ''text'', PyStr (py ''hello''))] =
     Some (PyStr (py ''hello''))"
  by (simp add: first_populated_def List.map_filter_simps py_eq_iff py_Nil_iff)

section \<open>Claims about the provider client\<close>

text \<open>
  C10.  For both providers, a successful call of \<^verbatim>\<open>analyze\<close> returns a dict with exactly the
  keys \<^verbatim>\<open>text\<close>, \<^verbatim>\<open>json\<close> and \<^verbatim>\<open>raw\<close>, in which \<^verbatim>\<open>json\<close> is the normalizer's result for \<^verbatim>\<open>text\<close>
  and \<^verbatim>\<open>raw\<close> is the decoded JSON body of the provider's response (the response to the
  last request of the call, which had a success status).
\<close>

theorem analyze_result_shape:
  "analyze ev c prompt log = (Inr res, log') \<longrightarrow>
     (\<exists>text parsed raw st.
        res = PyDict [(py ''text'', text), (py ''json'', parsed), (py ''raw'', raw)] \<and>
        try_parse_json text = Inr parsed \<and>
        log' \<noteq> [] \<and>
        post ev (butlast log') (last log') = Response st (Some raw) \<and>
        \<not> (400 \<le> st \<and> st < 600))"
proof
  assume run: "analyze ev c prompt log = (Inr res, log')"
  let ?goal = "\<exists>text parsed raw st.
        res = PyDict [(py ''text'', text), (py ''json'', parsed), (py ''raw'', raw)] \<and>
        try_parse_json text = Inr parsed \<and>
        log' \<noteq> [] \<and>
        post ev (butlast log') (last log') = Response st (Some raw) \<and>
        \<not> (400 \<le> st \<and> st < 600)"
  consider (sap) "provider c = py ''sap_aicore''" | (loc) "is_local c"
    | (other) "provider c \<noteq> py ''sap_aicore''" "\<not> is_local c"
    by blast
  then show ?goal
  proof cases
    case sap
    with run have r: "call_sap_aicore ev c prompt log = (Inr res, log')"
      by (simp add: analyze_sap)
    have conf: "configured c"
      using r call_sap_unconfigured [of c ev prompt log] by auto
    obtain token where tok: "fst (get_access_token ev c log) = Inr token"
      using r call_sap_token_failed [OF conf, of ev log _ prompt]
      by (cases "fst (get_access_token ev c log)") auto
    let ?log1 = "log @ [TokenPost (token_url c) (client_id c) (client_secret c) 15]"
    let ?rq = "InferencePost (inference_url c) token (model_name c) prompt
               (max_tokens c) (temperature c) 60"
    from call_sap_token_ok [OF conf tok refl refl, where prompt = prompt] r
    have s: "sap_result (post ev ?log1 ?rq) = Inr res" and l: "log' = ?log1 @ [?rq]"
      by (auto split: sum.splits)
    from sap_result_Inr [OF s] obtain tx parsed raw where
      "res = PyDict [(py ''text'', tx), (py ''json'', parsed), (py ''raw'', raw)]"
      "try_parse_json tx = Inr parsed" "response_json (post ev ?log1 ?rq) = Inr raw"
      by blast
    moreover from this(3) obtain st where
      "post ev ?log1 ?rq = Response st (Some raw)" "\<not> (400 \<le> st \<and> st < 600)"
      by (auto simp: response_json_Inr)
    moreover from l have "log' \<noteq> []" "butlast log' = ?log1" "last log' = ?rq"
      by (simp_all add: butlast_append)
    ultimately show ?thesis by auto
  next
    case loc
    with run have r: "call_local ev c prompt log = (Inr res, log')"
      by (simp add: analyze_local)
    have conf: "present (local_url c)"
      using r call_local_unconfigured [of c ev prompt log] by auto
    let ?rq = "LocalPost (local_url c) prompt 60"
    from call_local_configured [OF conf refl, of ev prompt log] r
    have s: "local_result ev (post ev log ?rq) = Inr res" and l: "log' = log @ [?rq]"
      by (auto split: sum.splits)
    from local_result_Inr [OF s] obtain tx parsed raw where
      "res = PyDict [(py ''text'', tx), (py ''json'', parsed), (py ''raw'', raw)]"
      "try_parse_json tx = Inr parsed" "response_json (post ev log ?rq) = Inr raw"
      by blast
    moreover from this(3) obtain st where
      "post ev log ?rq = Response st (Some raw)" "\<not> (400 \<le> st \<and> st < 600)"
      by (auto simp: response_json_Inr)
    moreover from l have "log' \<noteq> []" "butlast log' = log" "last log' = ?rq"
      by simp_all
    ultimately show ?thesis by auto
  next
    case other
    with run show ?thesis by (auto simp: analyze_def is_local_def)
  qed
qed

theorem analyze_result_shape_witness:
  "(\<exists>res log'. analyze (fixed_env token_ok completion_ok token_ok) demo_client (py ''dump'') [] =
      (Inr res, log') \<and>
     (\<exists>text parsed raw st.
        res = PyDict [(py ''text'', text), (py ''json'', parsed), (py ''raw'', raw)] \<and>
        try_parse_json text = Inr parsed \<and>
        log' \<noteq> [] \<and>
        post (fixed_env token_ok completion_ok token_ok) (butlast log') (last log') =
          Response st (Some raw) \<and>
        \<not> (400 \<le> st \<and> st < 600)))"
proof -
  obtain res log' where r:
    "analyze (fixed_env token_ok completion_ok token_ok) demo_client (py ''dump'') [] = (Inr res, log')"
    using demo_run [of token_ok "py ''dump''"] by blast
  from mp [OF analyze_result_shape r] r show ?thesis by blast
qed

text \<open>
  C4.  The defaults of the chain cover a body without \<^verbatim>\<open>choices\<close>, which degrades to the
  empty text; a body whose \<^verbatim>\<open>choices\<close> array is empty raises \<^verbatim>\<open>IndexError\<close> inside the
  \<^verbatim>\<open>try\<close> block, and \<^verbatim>\<open>analyze\<close> fails with \<^verbatim>\<open>LLMError\<close>.
\<close>

theorem empty_choices_raises:
  "analyze (fixed_env token_ok (Response 200 (Some (PyDict [(py ''choices'', PyList [])]))) token_ok)
     demo_client (py ''dump'') [] =
     (Inl (LLMError (StrOf IndexError)),
      [TokenPost (token_url demo_client) (client_id demo_client) (client_secret demo_client) 15,
       InferencePost (inference_url demo_client) (PyStr (py ''tok123'')) (model_name demo_client)
         (py ''dump'') (max_tokens demo_client) (temperature demo_client) 60]) \<and>
   sap_result (Response 200 (Some (PyDict []))) =
     Inr (PyDict [(py ''text'', PyStr []), (py ''json'', PyNone), (py ''raw'', PyDict [])])"
  using call_sap_token_ok [OF demo_configured
      demo_token [of "Response 200 (Some (PyDict [(py ''choices'', PyList [])]))" token_ok
        demo_client "[]"] refl refl, where prompt = "py ''dump''"]
  by (simp add: analyze_sap [OF demo_provider] fixed_env_post empty_choices no_choices)

text \<open>
  C3 (amended).  When the provider is the remote-managed one and the token endpoint URL,
  the client id, the client secret or the inference endpoint URL is absent, or when the
  provider is a local one and the endpoint URL is absent, \<^verbatim>\<open>analyze\<close> fails with \<^verbatim>\<open>LLMError\<close>
  (message \<^verbatim>\<open>SAP AI Core configuration missing\<close>, respectively \<^verbatim>\<open>LOCAL_LLM_URL not set\<close>)
  and makes no network call.  The model name is not among the checked parameters.
\<close>

theorem analyze_config_check:
  "(provider c = py ''sap_aicore'' \<and>
    \<not> (present (token_url c) \<and> present (client_id c) \<and> present (client_secret c) \<and>
       present (inference_url c)) \<longrightarrow>
      analyze ev c prompt log =
        (Inl (LLMError (Msg (py ''SAP AI Core configuration missing''))), log)) \<and>
   ((provider c = py ''local'' \<or> provider c = py ''ollama'' \<or> provider c = py ''vllm'') \<and>
    \<not> present (local_url c) \<longrightarrow>
      analyze ev c prompt log = (Inl (LLMError (Msg (py ''LOCAL_LLM_URL not set''))), log))"
proof (intro conjI impI)
  assume "provider c = py ''sap_aicore'' \<and>
    \<not> (present (token_url c) \<and> present (client_id c) \<and> present (client_secret c) \<and>
       present (inference_url c))"
  then show "analyze ev c prompt log =
        (Inl (LLMError (Msg (py ''SAP AI Core configuration missing''))), log)"
    using call_sap_unconfigured [of c ev prompt log]
    by (simp add: analyze_sap configured_def)
next
  assume "(provider c = py ''local'' \<or> provider c = py ''ollama'' \<or> provider c = py ''vllm'') \<and>
    \<not> present (local_url c)"
  then show "analyze ev c prompt log = (Inl (LLMError (Msg (py ''LOCAL_LLM_URL not set''))), log)"
    using call_local_unconfigured [of c ev prompt log] analyze_local [of c ev prompt log]
    by (simp add: is_local_def)
qed

theorem analyze_config_check_witness:
  "provider (demo_client\<lparr>token_url := None\<rparr>) = py ''sap_aicore'' \<and>
   token_url (demo_client\<lparr>token_url := None\<rparr>) = None \<and>
   analyze (fixed_env token_ok completion_ok token_ok) (demo_client\<lparr>token_url := None\<rparr>)
     (py ''dump'') [] =
     (Inl (LLMError (Msg (py ''SAP AI Core configuration missing''))), []) \<and>
   provider (local_client\<lparr>local_url := None\<rparr>) = py ''local'' \<and>
   analyze (fixed_env token_ok completion_ok token_ok) (local_client\<lparr>local_url := None\<rparr>)
     (py ''dump'') [] =
     (Inl (LLMError (Msg (py ''LOCAL_LLM_URL not set''))), [])"
proof -
  let ?c = "demo_client\<lparr>token_url := None\<rparr>"
  let ?l = "local_client\<lparr>local_url := None\<rparr>"
  let ?ev = "fixed_env token_ok completion_ok token_ok"
  have a: "provider ?c = py ''sap_aicore'' \<and>
    \<not> (present (token_url ?c) \<and> present (client_id ?c) \<and> present (client_secret ?c) \<and>
       present (inference_url ?c))"
    by (simp add: demo_client_def present_def)
  have b: "(provider ?l = py ''local'' \<or> provider ?l = py ''ollama'' \<or> provider ?l = py ''vllm'') \<and>
    \<not> present (local_url ?l)"
    by (simp add: local_client_def present_def)
  have "analyze ?ev ?c (py ''dump'') [] =
     (Inl (LLMError (Msg (py ''SAP AI Core configuration missing''))), [])"
    by (rule mp [OF conjunct1 [OF analyze_config_check [of ?c ?ev "py ''dump''" "[]"]] a])
  moreover have "analyze ?ev ?l (py ''dump'') [] =
     (Inl (LLMError (Msg (py ''LOCAL_LLM_URL not set''))), [])"
    by (rule mp [OF conjunct2 [OF analyze_config_check [of ?l ?ev "py ''dump''" "[]"]] b])
  ultimately show ?thesis by (simp add: demo_client_def local_client_def)
qed

theorem model_name_unchecked_counterexample:
  "model_name (demo_client\<lparr>model_name := None\<rparr>) = None \<and>
   provider (demo_client\<lparr>model_name := None\<rparr>) = py ''sap_aicore'' \<and>
   analyze (fixed_env token_ok completion_ok token_ok) (demo_client\<lparr>model_name := None\<rparr>)
     (py ''dump'') [] =
     (Inr (PyDict [(py ''text'', PyStr (py ''hello'')), (py ''json'', PyNone),
        (py ''raw'', PyDict [(py ''choices'',
          PyList [PyDict [(py ''message'', PyDict [(py ''content'', PyStr (py ''hello''))])]])])]),
      [TokenPost (token_url demo_client) (client_id demo_client) (client_secret demo_client) 15,
       InferencePost (inference_url demo_client) (PyStr (py ''tok123'')) None
         (py ''dump'') (max_tokens demo_client) (temperature demo_client) 60])"
proof -
  let ?c = "demo_client\<lparr>model_name := None\<rparr>"
  have p: "provider ?c = py ''sap_aicore''" by (simp add: demo_client_def)
  have c: "configured ?c" using demo_configured by (simp add: configured_def)
  from sap_run [OF p c, of token_ok "py ''dump''" "[]"] p show ?thesis by simp
qed

text \<open>
  C2 (amended).  Every failure that leaves \<^verbatim>\<open>analyze\<close> is of the single kind \<^verbatim>\<open>LLMError\<close>.
  With the remote-managed provider, a failed token exchange carries the message
  \<^verbatim>\<open>SAP AI Core authentication failed\<close>, a missing connection parameter the message
  \<^verbatim>\<open>SAP AI Core configuration missing\<close>, and a failed inference call the text of its cause:
  the failure classes differ in the message, not in the type.
\<close>

theorem analyze_failure_kind:
  "(analyze ev c prompt log = (Inl e, log') \<longrightarrow> py_type e = ''LLMError'') \<and>
   (provider c = py ''sap_aicore'' \<and> configured c \<and>
    fst (get_access_token ev c log) = Inl e0 \<longrightarrow>
      fst (analyze ev c prompt log) =
        Inl (LLMError (Msg (py ''SAP AI Core authentication failed'')))) \<and>
   (provider c = py ''sap_aicore'' \<and> configured c \<and>
    fst (get_access_token ev c log) = Inr token \<and>
    sap_result (post ev (log @ [TokenPost (token_url c) (client_id c) (client_secret c) 15])
      (InferencePost (inference_url c) token (model_name c) prompt (max_tokens c)
         (temperature c) 60)) = Inl cause \<longrightarrow>
      fst (analyze ev c prompt log) = Inl (LLMError (StrOf cause))) \<and>
   (provider c = py ''sap_aicore'' \<and> \<not> configured c \<longrightarrow>
      fst (analyze ev c prompt log) =
        Inl (LLMError (Msg (py ''SAP AI Core configuration missing''))))"
proof (intro conjI impI)
  assume "analyze ev c prompt log = (Inl e, log')"
  then obtain m where "e = LLMError m" using analyze_Inl_LLMError by blast
  then show "py_type e = ''LLMError''" by simp
next
  assume h: "provider c = py ''sap_aicore'' \<and> configured c \<and>
    fst (get_access_token ev c log) = Inl e0"
  then have "call_sap_aicore ev c prompt log =
     (Inl (LLMError (Msg (py ''SAP AI Core authentication failed''))),
      log @ [TokenPost (token_url c) (client_id c) (client_secret c) 15])"
    using call_sap_token_failed by blast
  with h show "fst (analyze ev c prompt log) =
        Inl (LLMError (Msg (py ''SAP AI Core authentication failed'')))"
    by (simp add: analyze_sap)
next
  assume h: "provider c = py ''sap_aicore'' \<and> configured c \<and>
    fst (get_access_token ev c log) = Inr token \<and>
    sap_result (post ev (log @ [TokenPost (token_url c) (client_id c) (client_secret c) 15])
      (InferencePost (inference_url c) token (model_name c) prompt (max_tokens c)
         (temperature c) 60)) = Inl cause"
  then have conf: "configured c" and tok: "fst (get_access_token ev c log) = Inr token"
    by simp_all
  from call_sap_token_ok [OF conf tok refl refl, where prompt = prompt] h
  show "fst (analyze ev c prompt log) = Inl (LLMError (StrOf cause))"
    by (simp add: analyze_sap)
next
  assume "provider c = py ''sap_aicore'' \<and> \<not> configured c"
  then show "fst (analyze ev c prompt log) =
        Inl (LLMError (Msg (py ''SAP AI Core configuration missing'')))"
    using call_sap_unconfigured [of c ev prompt log] by (simp add: analyze_sap)
qed

theorem analyze_failure_kind_witness:
  "provider demo_client = py ''sap_aicore'' \<and> configured demo_client \<and>
   fst (get_access_token (fixed_env (Response 401 None) completion_ok token_ok) demo_client []) =
     Inl (LLMError (Msg (py ''SAP AI Core authentication failed''))) \<and>
   fst (analyze (fixed_env (Response 401 None) completion_ok token_ok) demo_client (py ''dump'') []) =
     Inl (LLMError (Msg (py ''SAP AI Core authentication failed''))) \<and>
   py_type (LLMError (Msg (py ''SAP AI Core authentication failed''))) = ''LLMError''"
proof -
  let ?ev = "fixed_env (Response 401 None) completion_ok token_ok"
  let ?e = "LLMError (Msg (py ''SAP AI Core authentication failed''))"
  have t: "fst (get_access_token ?ev demo_client []) = Inl ?e" by (rule token_denied)
  have h: "provider demo_client = py ''sap_aicore'' \<and> configured demo_client \<and>
    fst (get_access_token ?ev demo_client []) = Inl ?e"
    using demo_provider demo_configured t by simp
  note th = analyze_failure_kind [where ev = ?ev and c = demo_client and prompt = "py ''dump''"
      and log = "[]" and e = ?e and e0 = ?e and log' =
      "[TokenPost (token_url demo_client) (client_id demo_client) (client_secret demo_client) 15]"]
  have r: "fst (analyze ?ev demo_client (py ''dump'') []) = Inl ?e"
    by (rule mp [OF conjunct1 [OF conjunct2 [OF th]] h])
  have "analyze ?ev demo_client (py ''dump'') [] =
     (Inl ?e, [TokenPost (token_url demo_client) (client_id demo_client) (client_secret demo_client) 15])"
    by (rule denied_run)
  then have "py_type ?e = ''LLMError''"
    by (rule mp [OF conjunct1 [OF th]])
  with h r show ?thesis by simp
qed

theorem one_error_kind_counterexample:
  "fst (analyze (fixed_env (Response 401 None) completion_ok token_ok) demo_client (py ''dump'') []) =
     Inl (LLMError (Msg (py ''SAP AI Core authentication failed''))) \<and>
   fst (analyze (fixed_env token_ok (Response 500 None) token_ok) demo_client (py ''dump'') []) =
     Inl (LLMError (StrOf (HTTPError 500))) \<and>
   fst (analyze (fixed_env token_ok completion_ok token_ok) (demo_client\<lparr>token_url := None\<rparr>)
     (py ''dump'') []) =
     Inl (LLMError (Msg (py ''SAP AI Core configuration missing''))) \<and>
   py_type (LLMError (Msg (py ''SAP AI Core authentication failed''))) =
     py_type (LLMError (StrOf (HTTPError 500))) \<and>
   py_type (LLMError (Msg (py ''SAP AI Core authentication failed''))) =
     py_type (LLMError (Msg (py ''SAP AI Core configuration missing'')))"
  by (simp add: denied_run server_error_run no_token_url_run)

text \<open>
  C8 (amended).  With the remote-managed provider fully configured, every invocation of
  \<^verbatim>\<open>analyze\<close> starts with one token exchange of its own, whatever was requested before (no
  token is kept from an earlier call).  When the exchange yields a token, exactly one
  inference call follows, carrying that token; when it fails, no inference call is made.
\<close>

theorem analyze_remote_calls:
  "provider c = py ''sap_aicore'' \<and> configured c \<longrightarrow>
     (case fst (get_access_token ev c log) of
        Inl e \<Rightarrow>
          snd (analyze ev c prompt log) =
            log @ [TokenPost (token_url c) (client_id c) (client_secret c) 15]
      | Inr token \<Rightarrow>
          snd (analyze ev c prompt log) =
            log @ [TokenPost (token_url c) (client_id c) (client_secret c) 15,
                   InferencePost (inference_url c) token (model_name c) prompt
                     (max_tokens c) (temperature c) 60])"
proof
  assume h: "provider c = py ''sap_aicore'' \<and> configured c"
  then have conf: "configured c" and sap: "provider c = py ''sap_aicore''" by simp_all
  show "case fst (get_access_token ev c log) of
        Inl e \<Rightarrow>
          snd (analyze ev c prompt log) =
            log @ [TokenPost (token_url c) (client_id c) (client_secret c) 15]
      | Inr token \<Rightarrow>
          snd (analyze ev c prompt log) =
            log @ [TokenPost (token_url c) (client_id c) (client_secret c) 15,
                   InferencePost (inference_url c) token (model_name c) prompt
                     (max_tokens c) (temperature c) 60]"
  proof (cases "fst (get_access_token ev c log)")
    case (Inl e)
    from call_sap_token_failed [OF conf Inl, where prompt = prompt] Inl sap show ?thesis
      by (simp add: analyze_sap)
  next
    case (Inr token)
    from call_sap_token_ok [OF conf Inr refl refl, where prompt = prompt] Inr sap
    show ?thesis by (simp add: analyze_sap)
  qed
qed

theorem analyze_remote_calls_witness:
  "provider demo_client = py ''sap_aicore'' \<and> configured demo_client \<and>
   fst (get_access_token (fixed_env token_ok completion_ok token_ok) demo_client []) =
     Inr (PyStr (py ''tok123'')) \<and>
   snd (analyze (fixed_env token_ok completion_ok token_ok) demo_client (py ''dump'') []) =
     [TokenPost (token_url demo_client) (client_id demo_client) (client_secret demo_client) 15,
      InferencePost (inference_url demo_client) (PyStr (py ''tok123'')) (model_name demo_client)
        (py ''dump'') (max_tokens demo_client) (temperature demo_client) 60]"
proof -
  let ?ev = "fixed_env token_ok completion_ok token_ok"
  have h: "provider demo_client = py ''sap_aicore'' \<and> configured demo_client"
    using demo_provider demo_configured by simp
  have t: "fst (get_access_token ?ev demo_client []) = Inr (PyStr (py ''tok123''))"
    by (rule demo_token)
  from mp [OF analyze_remote_calls [where c = demo_client and ev = ?ev and log = "[]"
        and prompt = "py ''dump''"] h] t
  have "snd (analyze ?ev demo_client (py ''dump'') []) =
     [TokenPost (token_url demo_client) (client_id demo_client) (client_secret demo_client) 15,
      InferencePost (inference_url demo_client) (PyStr (py ''tok123'')) (model_name demo_client)
        (py ''dump'') (max_tokens demo_client) (temperature demo_client) 60]"
    by simp
  with h t show ?thesis by simp
qed

theorem token_failure_no_inference_counterexample:
  "provider demo_client = py ''sap_aicore'' \<and> configured demo_client \<and> py ''dump'' \<noteq> [] \<and>
   analyze (fixed_env (Response 401 None) completion_ok token_ok) demo_client (py ''dump'') [] =
     (Inl (LLMError (Msg (py ''SAP AI Core authentication failed''))),
      [TokenPost (token_url demo_client) (client_id demo_client) (client_secret demo_client) 15])"
  using demo_provider demo_configured denied_run [of completion_ok token_ok "py ''dump''"]
  by (simp add: py_Nil_iff)

text \<open>
  The local provider on a JSON object with a success status: the text is the first
  populated field among \<^verbatim>\<open>result\<close>, \<^verbatim>\<open>text\<close>, \<^verbatim>\<open>output\<close>, or, when none of them is populated,
  the serialization of the whole body.  When that text is a string the call returns it as
  the \<^verbatim>\<open>text\<close> component, with the normalizer's result and the body; and every result the
  call returns has a string as its \<^verbatim>\<open>text\<close> component.
\<close>

lemma call_local_text:
  "present (local_url c) \<and>
   post ev log (LocalPost (local_url c) prompt 60) = Response st (Some (PyDict d)) \<and>
   \<not> (400 \<le> st \<and> st < 600) \<and>
   sel = (case first_populated d of Some x \<Rightarrow> x | None \<Rightarrow> PyStr (dumps ev (PyDict d))) \<longrightarrow>
     (\<forall>t. sel = PyStr t \<longrightarrow>
        (\<exists>parsed. try_parse_json (PyStr t) = Inr parsed \<and>
           call_local ev c prompt log =
             (Inr (PyDict [(py ''text'', PyStr t), (py ''json'', parsed), (py ''raw'', PyDict d)]),
              log @ [LocalPost (local_url c) prompt 60]))) \<and>
     (\<forall>res log'. call_local ev c prompt log = (Inr res, log') \<longrightarrow>
        (\<exists>t parsed. sel = PyStr t \<and>
           res = PyDict [(py ''text'', PyStr t), (py ''json'', parsed), (py ''raw'', PyDict d)]))"
proof (intro impI)
  assume h: "present (local_url c) \<and>
   post ev log (LocalPost (local_url c) prompt 60) = Response st (Some (PyDict d)) \<and>
   \<not> (400 \<le> st \<and> st < 600) \<and>
   sel = (case first_populated d of Some x \<Rightarrow> x | None \<Rightarrow> PyStr (dumps ev (PyDict d)))"
  then have pres: "present (local_url c)"
    and resp: "post ev log (LocalPost (local_url c) prompt 60) = Response st (Some (PyDict d))"
    and ok: "\<not> (400 \<le> st \<and> st < 600)"
    and sel: "sel = (case first_populated d of Some x \<Rightarrow> x | None \<Rightarrow> PyStr (dumps ev (PyDict d)))"
    by simp_all
  have lr: "local_result ev (Response st (Some (PyDict d))) =
     bind_exc (try_parse_json sel) (\<lambda>parsed.
       Inr (PyDict [(py ''text'', sel), (py ''json'', parsed), (py ''raw'', PyDict d)]))"
    using local_result_dict [OF ok, of ev d] sel by simp
  have cl: "call_local ev c prompt log =
     ((case local_result ev (Response st (Some (PyDict d))) of
         Inl e \<Rightarrow> Inl (LLMError (StrOf e)) | Inr res \<Rightarrow> Inr res),
      log @ [LocalPost (local_url c) prompt 60])"
    using call_local_configured [OF pres refl, of ev prompt log] resp by simp
  have str: "\<exists>parsed. try_parse_json (PyStr t) = Inr parsed \<and>
           call_local ev c prompt log =
             (Inr (PyDict [(py ''text'', PyStr t), (py ''json'', parsed), (py ''raw'', PyDict d)]),
              log @ [LocalPost (local_url c) prompt 60])" if "sel = PyStr t" for t
  proof -
    obtain parsed where p: "try_parse_json (PyStr t) = Inr parsed"
      using try_parse_json_str_total by blast
    with that lr cl show ?thesis by (simp add: bind_exc_simps)
  qed
  have ret: "\<exists>t parsed. sel = PyStr t \<and>
           res = PyDict [(py ''text'', PyStr t), (py ''json'', parsed), (py ''raw'', PyDict d)]"
    if "call_local ev c prompt log = (Inr res, log')" for res log'
  proof (cases "\<exists>t. sel = PyStr t")
    case True
    then obtain t where t: "sel = PyStr t" by blast
    from str [OF t] that t show ?thesis by auto
  next
    case False
    have "truthy sel"
      using sel False first_populated_truthy [of d]
      by (cases "first_populated d") auto
    with False have "try_parse_json sel = Inl AttributeError"
      by (intro try_parse_json_not_str) auto
    with lr cl that show ?thesis by (simp add: bind_exc_simps)
  qed
  from str ret show "(\<forall>t. sel = PyStr t \<longrightarrow>
        (\<exists>parsed. try_parse_json (PyStr t) = Inr parsed \<and>
           call_local ev c prompt log =
             (Inr (PyDict [(py ''text'', PyStr t), (py ''json'', parsed), (py ''raw'', PyDict d)]),
              log @ [LocalPost (local_url c) prompt 60]))) \<and>
     (\<forall>res log'. call_local ev c prompt log = (Inr res, log') \<longrightarrow>
        (\<exists>t parsed. sel = PyStr t \<and>
           res = PyDict [(py ''text'', PyStr t), (py ''json'', parsed), (py ''raw'', PyDict d)]))"
    by blast
qed

lemma call_local_text_example:
  "present (local_url local_client) \<and>
   first_populated [(py ''result'', PyStr []), (py ''text'', PyStr (py ''hello''))] =
     Some (PyStr (py ''hello'')) \<and>
   call_local
     (fixed_env token_ok completion_ok
        (Response 200 (Some (PyDict [(py ''result'', PyStr []), (py ''text'', PyStr (py ''hello''))]))))
     local_client (py ''dump'') [] =
     (Inr (PyDict [(py ''text'', PyStr (py ''hello'')), (py ''json'', PyNone),
        (py ''raw'', PyDict [(py ''result'', PyStr []), (py ''text'', PyStr (py ''hello''))])]),
      [LocalPost (local_url local_client) (py ''dump'') 60])"
proof -
  let ?d = "[(py ''result'', PyStr []), (py ''text'', PyStr (py ''hello''))]"
  let ?ev = "fixed_env token_ok completion_ok (Response 200 (Some (PyDict ?d)))"
  have h: "present (local_url local_client) \<and>
     post ?ev [] (LocalPost (local_url local_client) (py ''dump'') 60) =
       Response 200 (Some (PyDict ?d)) \<and>
     \<not> (400 \<le> (200::nat) \<and> (200::nat) < 600) \<and>
     PyStr (py ''hello'') =
       (case first_populated ?d of Some x \<Rightarrow> x | None \<Rightarrow> PyStr (dumps ?ev (PyDict ?d)))"
    using local_present by (simp add: fixed_env_post populated_example)
  note th = call_local_text [where c = local_client and ev = ?ev and log = "[]"
      and prompt = "py ''dump''" and st = 200 and d = ?d and sel = "PyStr (py ''hello'')"]
  from mp [OF th h] have
    "\<exists>parsed. try_parse_json (PyStr (py ''hello'')) = Inr parsed \<and>
       call_local ?ev local_client (py ''dump'') [] =
         (Inr (PyDict [(py ''text'', PyStr (py ''hello'')), (py ''json'', parsed),
            (py ''raw'', PyDict ?d)]),
          [] @ [LocalPost (local_url local_client) (py ''dump'') 60])"
    by blast
  then have "call_local ?ev local_client (py ''dump'') [] =
     (Inr (PyDict [(py ''text'', PyStr (py ''hello'')), (py ''json'', PyNone),
        (py ''raw'', PyDict ?d)]),
      [LocalPost (local_url local_client) (py ''dump'') 60])"
    by (auto simp: hello_parse)
  with local_present populated_example show ?thesis by simp
qed

lemma local_is_local: "is_local local_client"
  by (simp add: is_local_def local_client_def)

lemma populated_number: "first_populated [(py ''result'', PyInt 5)] = Some (PyInt 5)"
  by (simp add: first_populated_def List.map_filter_simps py_eq_iff)

lemma number_field_result:
  "local_result ev (Response 200 (Some (PyDict [(py ''result'', PyInt 5)]))) = Inl AttributeError"
proof -
  have ok: "\<not> (400 \<le> (200::nat) \<and> (200::nat) < 600)" by simp
  have "try_parse_json (PyInt 5) = Inl AttributeError"
    by (simp add: try_parse_json_def)
  with local_result_dict [OF ok, of ev "[(py ''result'', PyInt 5)]"] show ?thesis
    by (simp add: populated_number bind_exc_simps)
qed

text \<open>
  C5.  The text of the local provider is the first populated field among \<^verbatim>\<open>result\<close>,
  \<^verbatim>\<open>text\<close>, \<^verbatim>\<open>output\<close> as it is, string or not.  For the body \<^verbatim>\<open>{"result": 5}\<close> the text is the
  number 5; the normalizer calls \<^verbatim>\<open>strip\<close> on it, which raises \<^verbatim>\<open>AttributeError\<close>, and \<^verbatim>\<open>analyze\<close>
  fails with \<^verbatim>\<open>LLMError\<close> after the one request: no result and no text is returned.  A body
  whose first populated field is a string yields that string as the text.
\<close>

theorem non_string_field_raises:
  "first_populated [(py ''result'', PyInt 5)] = Some (PyInt 5) \<and>
   analyze
     (fixed_env token_ok completion_ok (Response 200 (Some (PyDict [(py ''result'', PyInt 5)]))))
     local_client (py ''dump'') [] =
     (Inl (LLMError (StrOf AttributeError)),
      [LocalPost (local_url local_client) (py ''dump'') 60]) \<and>
   analyze
     (fixed_env token_ok completion_ok
        (Response 200 (Some (PyDict [(py ''result'', PyStr []), (py ''text'', PyStr (py ''hello''))]))))
     local_client (py ''dump'') [] =
     (Inr (PyDict [(py ''text'', PyStr (py ''hello'')), (py ''json'', PyNone),
        (py ''raw'', PyDict [(py ''result'', PyStr []), (py ''text'', PyStr (py ''hello''))])]),
      [LocalPost (local_url local_client) (py ''dump'') 60])"
proof -
  let ?ev = "fixed_env token_ok completion_ok (Response 200 (Some (PyDict [(py ''result'', PyInt 5)])))"
  have "call_local ?ev local_client (py ''dump'') [] =
     (Inl (LLMError (StrOf AttributeError)),
      [LocalPost (local_url local_client) (py ''dump'') 60])"
    using call_local_configured [OF local_present refl, of ?ev "py ''dump''" "[]"]
    by (simp add: fixed_env_post number_field_result)
  with populated_number call_local_text_example show ?thesis
    by (simp add: analyze_local [OF local_is_local])
qed

section \<open>Claims about the analysis store\<close>

lemma save_count:
  "length (filter (\<lambda>r. record_id r = rid') (snd (save_analysis st rid p r t))) =
     (if rid' = rid then 1 else length (filter (\<lambda>r. record_id r = rid') st))"
proof -
  have a: "filter (\<lambda>r. record_id r = rid) (filter (\<lambda>r. record_id r \<noteq> rid) st) = []"
    by (induction st) auto
  have b: "filter (\<lambda>r. record_id r = rid') (filter (\<lambda>r. record_id r \<noteq> rid) st) =
    filter (\<lambda>r. record_id r = rid') st" if "rid' \<noteq> rid"
    using that by (induction st) auto
  show ?thesis
  proof (cases "rid' = rid")
    case True
    with a show ?thesis by (simp add: save_analysis_def Let_def del: filter_filter)
  next
    case False
    with b show ?thesis by (simp add: save_analysis_def Let_def del: filter_filter)
  qed
qed

lemma save_all_count:
  "length (filter (\<lambda>r. record_id r = rid) (save_all st ops)) =
     (if rid \<in> set (map fst ops) then 1 else length (filter (\<lambda>r. record_id r = rid) st))"
proof (induction st ops rule: save_all.induct)
  case (1 st)
  then show ?case by simp
next
  case (2 st rid' payload result now ops)
  then show ?case by (simp add: save_count)
qed

lemma save_get_other:
  "rid' \<noteq> rid \<Longrightarrow>
   get_analysis (snd (save_analysis st rid p r t)) rid' = get_analysis st rid'"
  by (induction st) (auto simp: save_analysis_def get_analysis_def Let_def)

lemma save_get_same:
  "get_analysis (snd (save_analysis st rid p r t)) rid =
     Some \<lparr>record_id = rid, input_payload = p, analysis_result = r, created_at = t\<rparr>"
  by (simp add: save_analysis_def get_analysis_def Let_def)

lemma save_all_get_untouched:
  "rid \<notin> set (map fst ops) \<Longrightarrow> get_analysis (save_all st ops) rid = get_analysis st rid"
proof (induction st ops rule: save_all.induct)
  case (1 st)
  then show ?case by simp
next
  case (2 st rid' payload result now ops)
  then show ?case by (simp add: save_get_other)
qed

lemma save_all_append: "save_all st (xs @ ys) = save_all (save_all st xs) ys"
  by (induction st xs rule: save_all.induct) simp_all

lemma save_all_latest:
  assumes "ops = before @ [(rid, payload, result, now)] @ after"
    and "rid \<notin> set (map fst after)"
  shows "get_analysis (save_all st ops) rid =
     Some \<lparr>record_id = rid, input_payload = payload, analysis_result = result,
           created_at = now\<rparr>"
proof -
  let ?st1 = "save_all st before"
  have "save_all st ops =
      save_all (snd (save_analysis ?st1 rid payload result now)) after"
    using assms(1) by (simp add: save_all_append)
  then show ?thesis
    using save_all_get_untouched [OF assms(2)] by (simp add: save_get_same)
qed

lemma filter_take_length: "length (filter P (take n xs)) \<le> length (filter P xs)"
proof -
  have "filter P xs = filter P (take n xs) @ filter P (drop n xs)"
    by (metis append_take_drop_id filter_append)
  then show ?thesis by simp
qed

lemma list_recent_count:
  "length (filter P (list_recent st limit)) \<le> length (filter P st)"
proof -
  have "length (filter P (rev (sort_key created_at st))) = length (filter P st)"
    by (simp add: rev_filter [symmetric] filter_sort)
  with filter_take_length [of P limit "rev (sort_key created_at st)"]
  show ?thesis by (simp add: list_recent_def)
qed

text \<open>
  C9.  After any sequence of saves, the store holds exactly one record for an id that was
  saved (and none for one that was not); the record is the one written by the latest save
  of that id, with that save's \<^verbatim>\<open>created_at\<close>; and \<^verbatim>\<open>list_recent\<close> shows the id at most once.
\<close>

theorem store_one_record_per_id:
  "length (filter (\<lambda>r. record_id r = rid) (save_all [] ops)) =
     (if rid \<in> set (map fst ops) then 1 else 0) \<and>
   (ops = before @ [(rid, payload, result, now)] @ after \<and> rid \<notin> set (map fst after) \<longrightarrow>
      get_analysis (save_all [] ops) rid =
        Some \<lparr>record_id = rid, input_payload = payload, analysis_result = result,
              created_at = now\<rparr>) \<and>
   length (filter (\<lambda>r. record_id r = rid) (list_recent (save_all [] ops) limit)) \<le> 1"
proof (intro conjI impI)
  show c: "length (filter (\<lambda>r. record_id r = rid) (save_all [] ops)) =
     (if rid \<in> set (map fst ops) then 1 else 0)"
    using save_all_count [of rid "[]" ops] by simp
  show "length (filter (\<lambda>r. record_id r = rid) (list_recent (save_all [] ops) limit)) \<le> 1"
    using list_recent_count [of "\<lambda>r. record_id r = rid" "save_all [] ops" limit] c
    by (simp split: if_splits)
next
  assume "ops = before @ [(rid, payload, result, now)] @ after \<and> rid \<notin> set (map fst after)"
  then show "get_analysis (save_all [] ops) rid =
        Some \<lparr>record_id = rid, input_payload = payload, analysis_result = result,
              created_at = now\<rparr>"
    using save_all_latest by blast
qed

theorem store_one_record_per_id_witness:
  "get_analysis
     (save_all [] [(py ''D1'', PyNone, PyStr (py ''first''), 1),
                   (py ''D2'', PyNone, PyStr (py ''other''), 2),
                   (py ''D1'', PyNone, PyStr (py ''second''), 3)]) (py ''D1'') =
     Some \<lparr>record_id = py ''D1'', input_payload = PyNone,
           analysis_result = PyStr (py ''second''), created_at = 3\<rparr> \<and>
   map record_id
     (list_recent (save_all [] [(py ''D1'', PyNone, PyStr (py ''first''), 1),
                   (py ''D2'', PyNone, PyStr (py ''other''), 2),
                   (py ''D1'', PyNone, PyStr (py ''second''), 3)]) 50) = [py ''D1'', py ''D2'']"
proof -
  let ?ops = "[(py ''D1'', PyNone, PyStr (py ''first''), 1::nat),
                   (py ''D2'', PyNone, PyStr (py ''other''), 2),
                   (py ''D1'', PyNone, PyStr (py ''second''), 3)]"
  have h: "?ops = [(py ''D1'', PyNone, PyStr (py ''first''), 1),
                   (py ''D2'', PyNone, PyStr (py ''other''), 2)] @
                  [(py ''D1'', PyNone, PyStr (py ''second''), 3)] @ [] \<and>
           py ''D1'' \<notin> set (map fst ([] :: (pystr \<times> pyval \<times> pyval \<times> nat) list))"
    by simp
  note th = store_one_record_per_id [where ops = ?ops and rid = "py ''D1''"
      and before = "[(py ''D1'', PyNone, PyStr (py ''first''), 1),
                   (py ''D2'', PyNone, PyStr (py ''other''), 2)]"
      and payload = PyNone and result = "PyStr (py ''second'')" and now = 3 and after = "[]"]
  have g: "get_analysis (save_all [] ?ops) (py ''D1'') =
     Some \<lparr>record_id = py ''D1'', input_payload = PyNone,
           analysis_result = PyStr (py ''second''), created_at = 3\<rparr>"
    by (rule mp [OF conjunct1 [OF conjunct2 [OF th]] h])
  have "map record_id (list_recent (save_all [] ?ops) 50) = [py ''D1'', py ''D2'']"
    by (simp add: save_analysis_def list_recent_def py_eq_iff Let_def)
  with g show ?thesis by simp
qed

end
